(* ===== verification/Prelude.thy ===== *)
theory Prelude
  imports Main "HOL-Library.Word" "HOL-Library.State_Monad" "HOL-Library.Multiset"
begin

unbundle bit_operations_syntax

text \<open>
  Shared vocabulary of the development: machine-integer and byte types, Go's
  error values with \<open>errors.Is\<close>, the part of Go's \<open>strings\<close> and
  \<open>encoding/binary\<close> packages the agent uses, and the generic lemmas on lists,
  maps and words that the component theories rely on.  Nothing in this theory
  models code of the repository itself; it models the language and its standard
  library.
\<close>

section \<open>Collections of simplification rules\<close>

named_theorems go_strings \<open>the strings package on concrete shapes\<close>
named_theorems byte_codec \<open>encoding/binary big-endian codecs\<close>
named_theorems run_simps \<open>running monadic code\<close>

declare Let_def [simp]

section \<open>Machine types\<close>

type_synonym byte = "8 word"
type_synonym uint16 = "16 word"
type_synonym uint32 = "32 word"
type_synonym uint64 = "64 word"

section \<open>Errors\<close>

text \<open>
  A Go \<open>error\<close> is a value of this type: the sentinels the agent compares with,
  \<open>errors.New\<close> texts, \<open>fmt.Errorf\<close> with a wrapped cause (the \<open>%w\<close> verb), and
  errors raised by code outside the repository, which are opaque.  A run-time
  panic is the value \<open>Panic\<close>, so that a branch that panics is a branch of the model.
\<close>

datatype go_error =
    EOF
  | Canceled
  | DeadlineExceeded
  | NetClosed
  | NetTimeout
  | InterceptClosed
  | StreamLost
  | BeforeRing
  | NoPair
  | PromoterMisconfigured
  | DemoterMisconfigured
  | ErrorNew string
  | Wrapf string go_error
  | LibError nat
  | Panic string

text \<open>\<open>errors.Is\<close> walks the chain of wrapped causes.\<close>

fun errors_Is :: "go_error \<Rightarrow> go_error \<Rightarrow> bool" where
  "errors_Is (Wrapf m e) t = (Wrapf m e = t \<or> errors_Is e t)"
| "errors_Is e t = (e = t)"

lemma errors_Is_refl [simp]: "errors_Is e e"
  by (cases e) simp_all

lemma errors_Is_Wrapf [intro]: "errors_Is e t \<Longrightarrow> errors_Is (Wrapf m e) t"
  by simp

section \<open>Strings\<close>

text \<open>
  Strings are byte sequences.  \<open>strings.ToLower\<close> and \<open>strings.TrimSpace\<close> have an
  ASCII path, which is modelled, and a path for strings that hold a byte of a
  multi-byte rune, which consults the Unicode tables; that path is the argument
  \<open>unicode\<close> of the definitions below.
\<close>

record unicode =
  u_ToLower :: "string \<Rightarrow> string"
  u_TrimSpace :: "string \<Rightarrow> string"

definition is_ascii :: "string \<Rightarrow> bool" where
  "is_ascii s = list_all (\<lambda>c. of_char c < (128::nat)) s"

definition lower_char :: "char \<Rightarrow> char" where
  "lower_char c =
     (if 65 \<le> (of_char c :: nat) \<and> of_char c \<le> (90::nat)
      then char_of ((of_char c :: nat) + 32) else c)"

definition ToLower :: "unicode \<Rightarrow> string \<Rightarrow> string" where
  "ToLower u s = (if is_ascii s then map lower_char s else u_ToLower u s)"

definition space_char :: "char \<Rightarrow> bool" where
  "space_char c = ((of_char c :: nat) \<in> {9, 10, 11, 12, 13, 32})"

definition TrimSpace :: "unicode \<Rightarrow> string \<Rightarrow> string" where
  "TrimSpace u s =
     (if is_ascii s
      then rev (dropWhile space_char (rev (dropWhile space_char s)))
      else u_TrimSpace u s)"

definition HasPrefix :: "string \<Rightarrow> string \<Rightarrow> bool" where
  "HasPrefix s p = (take (length p) s = p)"

definition HasSuffix :: "string \<Rightarrow> string \<Rightarrow> bool" where
  "HasSuffix s p = (length p \<le> length s \<and> drop (length s - length p) s = p)"

definition TrimSuffix :: "string \<Rightarrow> string \<Rightarrow> string" where
  "TrimSuffix s p = (if HasSuffix s p then take (length s - length p) s else s)"

text \<open>\<open>strings.Cut\<close> and \<open>strings.Split\<close> at a one-byte separator.\<close>

definition Cut :: "string \<Rightarrow> char \<Rightarrow> string \<times> string \<times> bool" where
  "Cut s c =
     (if c \<in> set s
      then (takeWhile (\<lambda>x. x \<noteq> c) s, tl (dropWhile (\<lambda>x. x \<noteq> c) s), True)
      else (s, [], False))"

fun Split :: "char \<Rightarrow> string \<Rightarrow> string list" where
  "Split c [] = [[]]"
| "Split c (x # xs) =
     (if x = c then [] # Split c xs
      else (case Split c xs of [] \<Rightarrow> [[x]] | w # ws \<Rightarrow> (x # w) # ws))"

fun Join :: "string list \<Rightarrow> char \<Rightarrow> string" where
  "Join [] c = []"
| "Join [w] c = w"
| "Join (w # ws) c = w @ c # Join ws c"

lemma HasSuffix_append [simp, go_strings]: "HasSuffix (s @ p) p"
  by (simp add: HasSuffix_def)

lemma TrimSuffix_append [simp, go_strings]: "TrimSuffix (s @ p) p = s"
  by (simp add: TrimSuffix_def)

lemma HasSuffixE:
  assumes "HasSuffix s p"
  obtains t where "s = t @ p"
proof -
  have "s = take (length s - length p) s @ p"
    using assms by (metis HasSuffix_def append_take_drop_id)
  then show thesis by (rule that)
qed

lemma Cut_append [go_strings]: "c \<notin> set s \<Longrightarrow> Cut (s @ c # t) c = (s, t, True)"
  by (induction s) (auto simp: Cut_def)

lemma Cut_absent [go_strings]: "c \<notin> set s \<Longrightarrow> Cut s c = (s, [], False)"
  by (simp add: Cut_def)

lemma Split_not_Nil [simp]: "Split c s \<noteq> []"
  by (induction s) (auto split: list.splits)

lemma Split_no_sep: "c \<notin> set s \<Longrightarrow> Split c s = [s]"
  by (induction s) auto

lemma Split_append: "c \<notin> set w \<Longrightarrow> Split c (w @ c # t) = w # Split c t"
  by (induction w) auto

lemma Split_Join:
  "ws \<noteq> [] \<Longrightarrow> (\<And>w. w \<in> set ws \<Longrightarrow> c \<notin> set w) \<Longrightarrow> Split c (Join ws c) = ws"
proof (induction ws c rule: Join.induct)
  case (2 w c)
  then show ?case by (simp add: Split_no_sep)
next
  case (3 w v vs c)
  then have "Split c (Join (v # vs) c) = v # vs" by simp
  moreover have "c \<notin> set w" using 3 by simp
  ultimately show ?case by (simp add: Split_append)
qed simp

text \<open>Lower case is idempotent, and the identity exactly on strings without capitals.\<close>

definition capital :: "char \<Rightarrow> bool" where
  "capital c = (65 \<le> (of_char c :: nat) \<and> of_char c \<le> (90::nat))"

lemma of_char_lower_char:
  "(of_char (lower_char c) :: nat) = (if capital c then of_char c + 32 else of_char c)"
  by (auto simp: lower_char_def capital_def of_char_of take_bit_eq_mod)

lemma not_capital_lower_char [simp]: "\<not> capital (lower_char c)"
  using of_char_lower_char [of c] by (auto simp: capital_def split: if_splits)

lemma lower_char_not_capital [simp]: "\<not> capital c \<Longrightarrow> lower_char c = c"
  by (auto simp: lower_char_def capital_def)

lemma is_ascii_lower [simp]: "is_ascii s \<Longrightarrow> is_ascii (map lower_char s)"
  by (auto simp: is_ascii_def list_all_iff of_char_lower_char capital_def)

lemma ToLower_ascii: "is_ascii s \<Longrightarrow> ToLower u s = map lower_char s"
  by (simp add: ToLower_def)

lemma ToLower_id: "is_ascii s \<Longrightarrow> \<not> list_ex capital s \<Longrightarrow> ToLower u s = s"
  by (induction s) (auto simp: ToLower_def is_ascii_def)

lemma ToLower_no_capital: "is_ascii s \<Longrightarrow> \<not> list_ex capital (ToLower u s)"
  by (auto simp: ToLower_ascii list_ex_iff)

lemma is_ascii_append [simp]: "is_ascii (s @ t) \<longleftrightarrow> is_ascii s \<and> is_ascii t"
  by (simp add: is_ascii_def)

section \<open>Big-endian integers\<close>

definition PutUint32 :: "uint32 \<Rightarrow> byte list" where
  "PutUint32 w = [ucast (drop_bit 24 w), ucast (drop_bit 16 w), ucast (drop_bit 8 w), ucast w]"

definition Uint32 :: "byte list \<Rightarrow> uint32" where
  "Uint32 b = push_bit 24 (ucast (b ! 0)) OR push_bit 16 (ucast (b ! 1))
     OR push_bit 8 (ucast (b ! 2)) OR ucast (b ! 3)"

definition Uint16 :: "byte list \<Rightarrow> uint16" where
  "Uint16 b = push_bit 8 (ucast (b ! 0)) OR ucast (b ! 1)"

lemma length_PutUint32 [simp, byte_codec]: "length (PutUint32 w) = 4"
  by (simp add: PutUint32_def)

lemma Uint32_PutUint32 [simp, byte_codec]: "Uint32 (PutUint32 w @ r) = w"
proof -
  have "Uint32 (PutUint32 w @ r) = push_bit 24 (ucast (ucast (drop_bit 24 w) :: byte))
     OR push_bit 16 (ucast (ucast (drop_bit 16 w) :: byte))
     OR push_bit 8 (ucast (ucast (drop_bit 8 w) :: byte)) OR ucast (ucast w :: byte)"
    by (simp add: Uint32_def PutUint32_def)
  also have "\<dots> = w"
  proof (rule bit_word_eqI)
    fix n assume "n < LENGTH(32)"
    then consider "n < 8" | "8 \<le> n" "n < 16" | "16 \<le> n" "n < 24" | "24 \<le> n" "n < 32"
      by fastforce
    then show "bit ((push_bit 24 (ucast (ucast (drop_bit 24 w) :: byte)) :: uint32)
       OR push_bit 16 (ucast (ucast (drop_bit 16 w) :: byte))
       OR push_bit 8 (ucast (ucast (drop_bit 8 w) :: byte)) OR ucast (ucast w :: byte)) n = bit w n"
      by cases (auto simp: bit_simps)
  qed
  finally show ?thesis .
qed

section \<open>Lists and maps\<close>

text \<open>The list of keys a \<open>range\<close> loop over a map visits: any order, each key once.\<close>

definition range_order :: "('k \<rightharpoonup> 'v) \<Rightarrow> 'k list \<Rightarrow> bool" where
  "range_order m ks = (distinct ks \<and> set ks = dom m)"

section \<open>Words\<close>

lemma unat_plus_one: "w + 1 \<noteq> (0 :: 'a::len word) \<Longrightarrow> unat (w + 1) = Suc (unat w)"
  using unatSuc [of w] by (simp add: add.commute)

lemma xor_eq_0_iff_eq: "(a :: 'a::len word) XOR b = 0 \<longleftrightarrow> a = b"
proof
  assume "a XOR b = 0"
  then have "(a XOR b) XOR b = b" by simp
  then show "a = b" by (simp add: xor.assoc)
qed simp

lemma drop_bit_word_mono: "(a :: 'a::len word) \<le> b \<Longrightarrow> drop_bit k a \<le> drop_bit k b"
  by (simp add: word_le_nat_alt unat_drop_bit_eq drop_bit_nat_def div_le_mono)

lemma push_drop_idem:
  "push_bit k (drop_bit k (push_bit k (drop_bit k (w :: 'a::len word)))) = push_bit k (drop_bit k w)"
  by (rule bit_word_eqI) (auto simp: bit_simps)

lemma unat_of_nat_small: "m < 2 ^ LENGTH('a) \<Longrightarrow> unat (of_nat m :: 'a::len word) = m"
  by (simp add: unat_of_nat)

lemma word_of_nat_unat: "(of_nat (unat w) :: 'a::len word) = w"
  by simp

end
