(* ===== verification/Netip.thy ===== *)
theory Netip
  imports Prelude
begin

text \<open>
  The part of Go's \<open>net/netip\<close> the agent uses: addresses, address-port pairs and
  prefixes, their textual form and its parser, the address classes and the
  prefix arithmetic.  The functions keep the names and the branch order of the
  standard library.  That the printed form of an address parses back to it is
  proved in \<open>NetipText\<close>.
\<close>

named_theorems netip_defs \<open>definitions of the address predicates\<close>

section \<open>Addresses\<close>

text \<open>
  \<open>netip.Addr\<close>: the zero value, an IPv4 address, or an IPv6 address with its
  zone (the empty zone for none).
\<close>

datatype addr = AddrZero | Addr4 uint32 | Addr6 "128 word" string

type_synonym addr_port = "addr \<times> uint16"

definition IsValid :: "addr \<Rightarrow> bool" where
  "IsValid a = (a \<noteq> AddrZero)"

fun Is4 :: "addr \<Rightarrow> bool" where
  "Is4 (Addr4 _) = True"
| "Is4 _ = False"

fun Is6 :: "addr \<Rightarrow> bool" where
  "Is6 (Addr6 _ _) = True"
| "Is6 _ = False"

fun Is4In6 :: "addr \<Rightarrow> bool" where
  "Is4In6 (Addr6 w _) = (drop_bit 32 w = 65535)"
| "Is4In6 _ = False"

fun Unmap :: "addr \<Rightarrow> addr" where
  "Unmap (Addr6 w z) = (if drop_bit 32 w = 65535 then Addr4 (ucast w) else Addr6 w z)"
| "Unmap a = a"

definition v4 :: "uint32 \<Rightarrow> nat \<Rightarrow> byte" where
  "v4 w i = ucast (drop_bit (24 - 8 * i) w)"

definition v6u16 :: "128 word \<Rightarrow> nat \<Rightarrow> uint16" where
  "v6u16 w i = ucast (drop_bit (112 - 16 * i) w)"

definition IsLoopback :: "addr \<Rightarrow> bool" where [netip_defs]:
  "IsLoopback a = (case Unmap a of AddrZero \<Rightarrow> False | Addr4 w \<Rightarrow> v4 w 0 = 127 | Addr6 w _ \<Rightarrow> w = 1)"

definition IsMulticast :: "addr \<Rightarrow> bool" where [netip_defs]:
  "IsMulticast a = (case Unmap a of AddrZero \<Rightarrow> False
     | Addr4 w \<Rightarrow> v4 w 0 AND 240 = 224 | Addr6 w _ \<Rightarrow> drop_bit 8 (v6u16 w 0) = 255)"

definition IsLinkLocalUnicast :: "addr \<Rightarrow> bool" where [netip_defs]:
  "IsLinkLocalUnicast a = (case Unmap a of AddrZero \<Rightarrow> False
     | Addr4 w \<Rightarrow> v4 w 0 = 169 \<and> v4 w 1 = 254 | Addr6 w _ \<Rightarrow> v6u16 w 0 AND 65472 = 65152)"

definition IsPrivate :: "addr \<Rightarrow> bool" where [netip_defs]:
  "IsPrivate a = (case Unmap a of AddrZero \<Rightarrow> False
     | Addr4 w \<Rightarrow> v4 w 0 = 10 \<or> (v4 w 0 = 172 \<and> v4 w 1 AND 240 = 16) \<or> (v4 w 0 = 192 \<and> v4 w 1 = 168)
     | Addr6 w _ \<Rightarrow> drop_bit 8 (v6u16 w 0) AND 254 = 252)"

definition IsUnspecified :: "addr \<Rightarrow> bool" where [netip_defs]:
  "IsUnspecified a = (a = Addr4 0 \<or> a = Addr6 0 [])"

definition IsGlobalUnicast :: "addr \<Rightarrow> bool" where [netip_defs]:
  "IsGlobalUnicast a = (case Unmap a of AddrZero \<Rightarrow> False
     | Addr4 w \<Rightarrow> w \<noteq> 0 \<and> w \<noteq> 4294967295 \<and> \<not> IsLoopback (Addr4 w) \<and> \<not> IsMulticast (Addr4 w)
          \<and> \<not> IsLinkLocalUnicast (Addr4 w)
     | Addr6 w z \<Rightarrow> Addr6 w z \<noteq> Addr6 0 [] \<and> \<not> IsLoopback (Addr6 w z) \<and> \<not> IsMulticast (Addr6 w z)
          \<and> \<not> IsLinkLocalUnicast (Addr6 w z))"

text \<open>\<open>Next\<close> is the address after, or the zero value past the last one.\<close>

fun Next :: "addr \<Rightarrow> addr" where
  "Next AddrZero = AddrZero"
| "Next (Addr4 w) = (if w + 1 = 0 then AddrZero else Addr4 (w + 1))"
| "Next (Addr6 w z) = (if w + 1 = 0 then AddrZero else Addr6 (w + 1) z)"

text \<open>\<open>As4\<close> panics on an address that is neither IPv4 nor IPv4-mapped: \<open>None\<close>.\<close>

fun As4 :: "addr \<Rightarrow> byte list option" where
  "As4 (Addr4 w) = Some (PutUint32 w)"
| "As4 (Addr6 w z) = (if drop_bit 32 w = 65535 then Some (PutUint32 (ucast w)) else None)"
| "As4 AddrZero = None"

definition AddrFrom4 :: "byte list \<Rightarrow> addr" where
  "AddrFrom4 b = Addr4 (Uint32 b)"

fun bytes_word :: "byte list \<Rightarrow> 128 word" where
  "bytes_word [] = 0"
| "bytes_word (b # bs) = push_bit (8 * length bs) (ucast b) OR bytes_word bs"

definition AddrFromSlice :: "byte list \<Rightarrow> addr option" where
  "AddrFromSlice b =
     (if length b = 4 then Some (AddrFrom4 b)
      else if length b = 16 then Some (Addr6 (bytes_word b) []) else None)"

section \<open>Text\<close>

fun itoa :: "nat \<Rightarrow> string" where
  "itoa n = (if n < 10 then [char_of (48 + n)] else itoa (n div 10) @ [char_of (48 + n mod 10)])"

declare itoa.simps [simp del]

definition hex_char :: "nat \<Rightarrow> char" where
  "hex_char d = (if d < 10 then char_of (48 + d) else char_of (87 + d))"

definition appendHex :: "uint16 \<Rightarrow> string" where
  "appendHex x = (let n = unat x in
     (if n \<ge> 4096 then [hex_char (n div 4096)] else []) @
     (if n \<ge> 256 then [hex_char (n div 256 mod 16)] else []) @
     (if n \<ge> 16 then [hex_char (n div 16 mod 16)] else []) @
     [hex_char (n mod 16)])"

definition string4 :: "uint32 \<Rightarrow> string" where
  "string4 w = itoa (unat (v4 w 0)) @ CHR ''.'' # itoa (unat (v4 w 1)) @ CHR ''.'' #
     itoa (unat (v4 w 2)) @ CHR ''.'' # itoa (unat (v4 w 3))"

definition groups :: "128 word \<Rightarrow> uint16 list" where
  "groups w = map (v6u16 w) [0..<8]"

definition zero_run :: "uint16 list \<Rightarrow> nat \<Rightarrow> nat" where
  "zero_run gs i = length (takeWhile (\<lambda>g. g = 0) (drop i gs))"

text \<open>The longest run of at least two zero groups, the first one of that length.\<close>

definition zero_span :: "uint16 list \<Rightarrow> (nat \<times> nat) option" where
  "zero_span gs = fold
     (\<lambda>i best. let l = zero_run gs i in
        if l \<ge> 2 \<and> l > (case best of None \<Rightarrow> 0 | Some (a, b) \<Rightarrow> b - a) then Some (i, i + l) else best)
     [0..<length gs] None"

definition string_groups :: "uint16 list \<Rightarrow> string" where
  "string_groups gs = Join (map appendHex gs) CHR '':''"

definition string6 :: "uint16 list \<Rightarrow> string" where
  "string6 gs = (case zero_span gs of
       None \<Rightarrow> string_groups gs
     | Some (a, b) \<Rightarrow> string_groups (take a gs) @ ''::'' @ string_groups (drop b gs))"

definition zone_suffix :: "string \<Rightarrow> string" where
  "zone_suffix z = (if z = [] then [] else CHR ''%'' # z)"

fun String :: "addr \<Rightarrow> string" where
  "String AddrZero = ''invalid IP''"
| "String (Addr4 w) = string4 w"
| "String (Addr6 w z) =
     (if drop_bit 32 w = 65535 then ''::ffff:'' @ string4 (ucast w) @ zone_suffix z
      else string6 (groups w) @ zone_suffix z)"

fun AddrPort_String :: "addr_port \<Rightarrow> string" where
  "AddrPort_String (AddrZero, p) = ''invalid AddrPort''"
| "AddrPort_String (Addr4 w, p) = String (Addr4 w) @ CHR '':'' # itoa (unat p)"
| "AddrPort_String (Addr6 w z, p) = CHR ''['' # String (Addr6 w z) @ '']:'' @ itoa (unat p)"

section \<open>Parsing\<close>

definition dec_digit :: "char \<Rightarrow> nat option" where
  "dec_digit c = (let n = of_char c in if 48 \<le> n \<and> n \<le> 57 then Some (n - 48) else None)"

definition hex_digit :: "char \<Rightarrow> nat option" where
  "hex_digit c = (let n = of_char c in
     if 48 \<le> n \<and> n \<le> 57 then Some (n - 48)
     else if 97 \<le> n \<and> n \<le> 102 then Some (n - 87)
     else if 65 \<le> n \<and> n \<le> 70 then Some (n - 55) else None)"

text \<open>
  The field scanner of \<open>parseIPv4Fields\<close>: \<open>gap\<close> holds at the start of the text and
  right after a dot; \<open>v\<close> and \<open>d\<close> are the value and the digit count of the octet.
\<close>

fun ipv4_fields :: "string \<Rightarrow> bool \<Rightarrow> nat \<Rightarrow> nat \<Rightarrow> byte list \<Rightarrow> byte list option" where
  "ipv4_fields [] gap v d fs = (if length fs < 3 then None else Some (fs @ [of_nat v]))"
| "ipv4_fields (c # cs) gap v d fs =
     (case dec_digit c of
        Some x \<Rightarrow>
          if d = 1 \<and> v = 0 then None
          else if v * 10 + x > 255 then None
          else ipv4_fields cs False (v * 10 + x) (d + 1) fs
      | None \<Rightarrow>
          if c = CHR ''.'' then
            if gap \<or> cs = [] then None
            else if length fs = 3 then None
            else ipv4_fields cs True 0 0 (fs @ [of_nat v])
          else None)"

definition parseIPv4Fields :: "string \<Rightarrow> byte list option" where
  "parseIPv4Fields s = ipv4_fields s True 0 0 []"

definition parseIPv4 :: "string \<Rightarrow> addr option" where
  "parseIPv4 s = map_option AddrFrom4 (parseIPv4Fields s)"

fun parse_hex :: "string \<Rightarrow> nat \<Rightarrow> nat \<Rightarrow> (nat \<times> nat \<times> string) option" where
  "parse_hex [] off acc = Some (off, acc, [])"
| "parse_hex (c # cs) off acc =
     (case hex_digit c of
        None \<Rightarrow> Some (off, acc, c # cs)
      | Some d \<Rightarrow>
          if off > 3 then None
          else if acc * 16 + d > 65535 then None
          else parse_hex cs (off + 1) (acc * 16 + d))"

definition pair16 :: "byte \<Rightarrow> byte \<Rightarrow> uint16" where
  "pair16 a b = push_bit 8 (ucast a) OR ucast b"

text \<open>
  The group loop of \<open>parseIPv6\<close>; the first argument is the number of groups there
  is still room for, \<open>gs\<close> the groups read and \<open>e\<close> the position of the ellipsis.
\<close>

fun parse6_loop ::
  "nat \<Rightarrow> string \<Rightarrow> uint16 list \<Rightarrow> nat option \<Rightarrow> (string \<times> uint16 list \<times> nat option) option" where
  "parse6_loop 0 s gs e = Some (s, gs, e)"
| "parse6_loop (Suc n) s gs e =
     (case parse_hex s 0 0 of
        None \<Rightarrow> None
      | Some (off, acc, s1) \<Rightarrow>
          if off = 0 then None
          else if s1 \<noteq> [] \<and> hd s1 = CHR ''.'' then
            if e = None \<and> length gs \<noteq> 6 then None
            else if length gs > 6 then None
            else (case parseIPv4Fields s of
                Some [a, b, c, d] \<Rightarrow> Some ([], gs @ [pair16 a b, pair16 c d], e)
              | _ \<Rightarrow> None)
          else (case s1 of
              [] \<Rightarrow> Some ([], gs @ [of_nat acc], e)
            | c # s2 \<Rightarrow>
                if c \<noteq> CHR '':'' then None
                else (case s2 of
                    [] \<Rightarrow> None
                  | d # s3 \<Rightarrow>
                      if d = CHR '':'' then
                        if e \<noteq> None then None
                        else if s3 = [] then Some ([], gs @ [of_nat acc], Some (length gs + 1))
                        else parse6_loop n s3 (gs @ [of_nat acc]) (Some (length gs + 1))
                      else parse6_loop n s2 (gs @ [of_nat acc]) e)))"

definition finish6 :: "(string \<times> uint16 list \<times> nat option) \<Rightarrow> uint16 list option" where
  "finish6 r = (case r of (s, gs, e) \<Rightarrow>
     if s \<noteq> [] then None
     else if length gs < 8 then
       (case e of None \<Rightarrow> None
        | Some k \<Rightarrow> Some (take k gs @ replicate (8 - length gs) 0 @ drop k gs))
     else if e \<noteq> None then None else Some gs)"

fun of_groups :: "uint16 list \<Rightarrow> 128 word" where
  "of_groups [] = 0"
| "of_groups (g # gs) = push_bit (16 * length gs) (ucast g) OR of_groups gs"

definition parse6_body :: "string \<Rightarrow> uint16 list option" where
  "parse6_body s =
     (if take 2 s = ''::'' then
        if length s = 2 then Some (replicate 8 0)
        else Option.bind (parse6_loop 8 (drop 2 s) [] (Some 0)) finish6
      else Option.bind (parse6_loop 8 s [] None) finish6)"

definition parseIPv6 :: "string \<Rightarrow> addr option" where
  "parseIPv6 s = (case Cut s CHR ''%'' of (t, zone, found) \<Rightarrow>
     if found \<and> zone = [] then None
     else map_option (\<lambda>gs. Addr6 (of_groups gs) zone) (parse6_body t))"

definition ParseAddr :: "string \<Rightarrow> addr option" where
  "ParseAddr s = (case dropWhile (\<lambda>c. c \<notin> {CHR ''.'', CHR '':'', CHR ''%''}) s of
       [] \<Rightarrow> None
     | c # _ \<Rightarrow>
         if c = CHR ''.'' then parseIPv4 s
         else if c = CHR '':'' then parseIPv6 s
         else None)"

text \<open>\<open>strconv.ParseUint\<close> in base 10, bounded: at least one digit and no other character.\<close>

fun parse_uint_acc :: "string \<Rightarrow> nat \<Rightarrow> nat option" where
  "parse_uint_acc [] v = Some v"
| "parse_uint_acc (c # cs) v =
     (case dec_digit c of None \<Rightarrow> None | Some x \<Rightarrow> parse_uint_acc cs (v * 10 + x))"

definition ParseUint :: "string \<Rightarrow> nat \<Rightarrow> nat option" where
  "ParseUint s m = (if s = [] then None
     else case parse_uint_acc s 0 of None \<Rightarrow> None | Some v \<Rightarrow> if v \<le> m then Some v else None)"

text \<open>Splitting at the last occurrence of a character.\<close>

definition last_cut :: "char \<Rightarrow> string \<Rightarrow> (string \<times> string) option" where
  "last_cut c s = (if c \<in> set s
     then Some (rev (tl (dropWhile (\<lambda>x. x \<noteq> c) (rev s))), rev (takeWhile (\<lambda>x. x \<noteq> c) (rev s)))
     else None)"

definition ParseAddrPort :: "string \<Rightarrow> addr_port option" where
  "ParseAddrPort s = (case last_cut CHR '':'' s of
       None \<Rightarrow> None
     | Some (ip, port) \<Rightarrow>
         if ip = [] \<or> port = [] then None
         else if hd ip = CHR ''['' \<and> (length ip < 2 \<or> last ip \<noteq> CHR '']'') then None
         else let v6 = (hd ip = CHR ''[''); host = (if v6 then butlast (tl ip) else ip) in
           (case ParseUint port 65535 of
              None \<Rightarrow> None
            | Some p \<Rightarrow>
                (case ParseAddr host of
                   None \<Rightarrow> None
                 | Some a \<Rightarrow> if v6 \<and> Is4 a \<or> \<not> v6 \<and> Is6 a then None else Some (a, of_nat p))))"

section \<open>Prefixes\<close>

text \<open>\<open>netip.Prefix\<close>: an address and the number of leading bits.\<close>

type_synonym prefix = "addr \<times> nat"

fun has_zone :: "addr \<Rightarrow> bool" where
  "has_zone (Addr6 _ z) = (z \<noteq> [])"
| "has_zone _ = False"

definition ParsePrefix :: "string \<Rightarrow> prefix option" where
  "ParsePrefix s = (case last_cut CHR ''/'' s of
       None \<Rightarrow> None
     | Some (ip, bits) \<Rightarrow>
         (case ParseAddr ip of
            None \<Rightarrow> None
          | Some a \<Rightarrow>
              if has_zone a then None
              else if length bits > 1 \<and> hd bits = CHR ''0'' then None
              else map_option (Pair a) (ParseUint bits (if Is6 a then 128 else 32))))"

fun Masked :: "prefix \<Rightarrow> prefix" where
  "Masked (Addr4 w, n) = (Addr4 (push_bit (32 - n) (drop_bit (32 - n) w)), n)"
| "Masked (Addr6 w z, n) = (Addr6 (push_bit (128 - n) (drop_bit (128 - n) w)) [], n)"
| "Masked (AddrZero, n) = (AddrZero, 0)"

fun Contains :: "prefix \<Rightarrow> addr \<Rightarrow> bool" where
  "Contains (Addr4 p, n) (Addr4 w) = (drop_bit (32 - n) (w XOR p) = 0)"
| "Contains (Addr6 p y, n) (Addr6 w z) = (z = [] \<and> drop_bit (128 - n) (w XOR p) = 0)"
| "Contains _ _ = False"

end
