(* ===== verification/Transport.thy ===== *)
theory Transport
  imports Netip "HOL-Library.State_Monad"
begin

text \<open>
  The code the agent is built on and that is not part of the repository: the
  connections and streams of \<open>lib/transport\<close>, the frames and messages of \<open>lib/orp\<close>,
  the context it runs under.  They are the argument \<open>'e netlib\<close> of the operations:
  each call acts on a state \<open>'e\<close> the model knows nothing about and may fail or
  succeed as that state decides.

  An operation of the agent is a state-monad action over \<open>world\<close>, the outside state
  together with the list of calls made so far.  Components extend the record with
  the fields of their own state.  Values that a format verb would print into an
  error message are left out of the message.
\<close>

section \<open>Messages\<close>

type_synonym conn = nat
type_synonym stream = nat

text \<open>A dialer, or \<open>transport.DialQUIC\<close> called without one.\<close>

datatype dialer = DefaultDialer | SharedTransport nat | TCPDialer | DialQUIC

datatype frame_type =
    FtHello | FtHelloAck | FtRegister | FtRegisterAck | FtOpenStream | FtIncomingStream
  | FtStreamAccept | FtStreamReject | FtStreamResume | FtStreamCheckpoint | FtStreamReady
  | FtAllocGranted | FtCandidateOffer | FtCandidateAnswer | FtMigrateToP2P
  | FtObservedAddrQuery | FtObservedAddrResp | FtOther nat

record frame =
  f_Type :: frame_type
  f_Payload :: "byte list"

record pb_candidate =
  pb_Kind :: string
  pb_Ip :: string
  pb_Port :: uint32
  pb_Priority :: uint32

record stream_resume =
  sr_StreamId :: uint64
  sr_MyPosition :: uint64
  sr_PeerAckPosition :: uint64

record stream_checkpoint =
  cp_StreamId :: uint64
  cp_MyPosition :: uint64
  cp_PeerAckPosition :: uint64

record alloc_granted =
  g_StreamId :: uint64
  g_MyAllocation :: uint32
  g_PeerAllocation :: uint32
  g_ForwardEndpoint :: string

record incoming_stream =
  in_StreamId :: uint64
  in_TargetService :: string

record observed_addr_resp =
  oar_RequestId :: uint64
  oar_Ip :: string
  oar_Port :: uint32

record candidate_set =
  cs_StreamId :: uint64
  cs_Candidates :: "pb_candidate list"

datatype orp_msg =
    MHello string string
  | MRegister string string
  | MOpenStream string string uint64
  | MStreamAccept
  | MStreamReject nat go_error
  | MStreamResume stream_resume
  | MStreamCheckpoint stream_checkpoint
  | MCandidateOffer candidate_set
  | MCandidateAnswer candidate_set
  | MMigrateToP2P uint64 pb_candidate
  | MObservedAddrQuery uint64

text \<open>
  \<open>orp.UnmarshalProto\<close>, one function per message the agent reads.  What a payload
  decodes to is the library's business.
\<close>

record orp_lib =
  um_HelloAck :: "frame \<Rightarrow> go_error option"
  um_IncomingStream :: "frame \<Rightarrow> go_error + incoming_stream"
  um_StreamResume :: "frame \<Rightarrow> go_error + stream_resume"
  um_StreamCheckpoint :: "frame \<Rightarrow> go_error + stream_checkpoint"
  um_StreamReady :: "frame \<Rightarrow> go_error + uint64"
  um_AllocGranted :: "frame \<Rightarrow> go_error + alloc_granted"
  um_CandidateOffer :: "frame \<Rightarrow> go_error + candidate_set"
  um_CandidateAnswer :: "frame \<Rightarrow> go_error + candidate_set"
  um_ObservedAddrResp :: "frame \<Rightarrow> go_error + observed_addr_resp"

text \<open>
  \<open>crypto/tls.Config\<close>, the fields the agent sets: certificates and certificate pools
  by number, \<open>ClientAuth\<close> as whether client certificates are required and verified,
  \<open>MinVersion\<close> with 0 for unset.
\<close>

record tls_config =
  tc_Certificates :: "nat list"
  tc_RootCAs :: "nat option"
  tc_ClientCAs :: "nat option"
  tc_VerifyClient :: bool
  tc_ServerName :: string
  tc_NextProtos :: "string list"
  tc_MinVersion :: nat

text \<open>
  What two bridged ends can be: a stream wrapper, a transport stream, the local
  backend of a service, an intercepted local connection.
\<close>

datatype endpoint = EpWrapped nat | EpStream stream | EpBackend nat | EpLocal nat

section \<open>The outside and the calls made on it\<close>

datatype task =
    GoControlReader | GoEmitCheckpoints int | GoHandleIncoming stream
  | GoAcceptDirectStreams conn | GoHandleDirectStream stream | GoReadObserved stream
  | GoAcceptDirect nat | GoDNSRun nat | GoRunConsumer | GoServe nat string | GoPromote nat string

datatype event =
    EvDial dialer string "conn option"
  | EvOpen conn "stream option"
  | EvConnClose conn
  | EvWriteFrame stream frame_type orp_msg bool
  | EvParse stream bool
  | EvWrite stream "byte list"
  | EvClose stream
  | EvCloseWrite stream
  | EvCancelRead stream
  | EvHandler nat incoming_stream "nat option"
  | EvLocalClose endpoint
  | EvPunch nat "byte list" addr_port
  | EvSleep nat
  | EvGo task
  | EvBridge endpoint endpoint
  | EvUDPBind "nat option"
  | EvUDPSend nat "byte list" addr_port bool
  | EvUDPClose nat
  | EvQuicDial nat tls_config "conn option"
  | EvQuicListen nat tls_config "nat option"
  | EvQuicAccept nat "conn option"
  | EvQuicAcceptStream conn "stream option"
  | EvTransportClose nat
  | EvListenerClose nat
  | EvInterceptorClose

record 'e netlib =
  nl_Dial :: "dialer \<Rightarrow> string \<Rightarrow> 'e \<Rightarrow> (go_error + conn) \<times> 'e"
  nl_OpenStream :: "conn \<Rightarrow> 'e \<Rightarrow> (go_error + stream) \<times> 'e"
  nl_ConnClose :: "conn \<Rightarrow> 'e \<Rightarrow> go_error option \<times> 'e"
  nl_WriteFrame :: "stream \<Rightarrow> frame_type \<Rightarrow> orp_msg \<Rightarrow> 'e \<Rightarrow> go_error option \<times> 'e"
  nl_ParseFrame :: "stream \<Rightarrow> 'e \<Rightarrow> (go_error + frame) \<times> 'e"
  nl_Write :: "stream \<Rightarrow> byte list \<Rightarrow> 'e \<Rightarrow> (nat \<times> go_error option) \<times> 'e"
  nl_Close :: "stream \<Rightarrow> 'e \<Rightarrow> go_error option \<times> 'e"
  nl_CloseWrite :: "stream \<Rightarrow> 'e \<Rightarrow> go_error option \<times> 'e"
  nl_CancelRead :: "stream \<Rightarrow> 'e \<Rightarrow> unit \<times> 'e"
  nl_CtxErr :: "'e \<Rightarrow> go_error option \<times> 'e"
  nl_WriteTo :: "nat \<Rightarrow> byte list \<Rightarrow> addr_port \<Rightarrow> 'e \<Rightarrow> go_error option \<times> 'e"

record 'e world =
  env :: 'e
  trace :: "event list"

type_synonym ('e, 'm, 'a) io = "(('e, 'm) world_scheme, 'a) state"

definition act :: "('e \<Rightarrow> 'a \<times> 'e) \<Rightarrow> ('a \<Rightarrow> event list) \<Rightarrow> ('e, 'm, 'a) io" where
  "act f ev = State (\<lambda>w. case f (env w) of (a, e) \<Rightarrow> (a, w\<lparr>env := e, trace := trace w @ ev a\<rparr>))"

definition emit :: "event \<Rightarrow> ('e, 'm, unit) io" where
  "emit ev = State (\<lambda>w. ((), w\<lparr>trace := trace w @ [ev]\<rparr>))"

definition is_Inr :: "'a + 'b \<Rightarrow> bool" where
  "is_Inr r = (case r of Inl _ \<Rightarrow> False | Inr _ \<Rightarrow> True)"

definition ok_value :: "'a + 'b \<Rightarrow> 'b option" where
  "ok_value r = (case r of Inl _ \<Rightarrow> None | Inr b \<Rightarrow> Some b)"

definition Dial_io :: "'e netlib \<Rightarrow> dialer \<Rightarrow> string \<Rightarrow> ('e, 'm, go_error + conn) io" where
  "Dial_io N d addr = act (nl_Dial N d addr) (\<lambda>r. [EvDial d addr (ok_value r)])"

definition OpenStream_io :: "'e netlib \<Rightarrow> conn \<Rightarrow> ('e, 'm, go_error + stream) io" where
  "OpenStream_io N c = act (nl_OpenStream N c) (\<lambda>r. [EvOpen c (ok_value r)])"

definition ConnClose_io :: "'e netlib \<Rightarrow> conn \<Rightarrow> ('e, 'm, go_error option) io" where
  "ConnClose_io N c = act (nl_ConnClose N c) (\<lambda>_. [EvConnClose c])"

definition WriteFrame_io ::
  "'e netlib \<Rightarrow> stream \<Rightarrow> frame_type \<Rightarrow> orp_msg \<Rightarrow> ('e, 'm, go_error option) io" where
  "WriteFrame_io N st t m = act (nl_WriteFrame N st t m) (\<lambda>r. [EvWriteFrame st t m (r = None)])"

definition ParseFrame_io :: "'e netlib \<Rightarrow> stream \<Rightarrow> ('e, 'm, go_error + frame) io" where
  "ParseFrame_io N st = act (nl_ParseFrame N st) (\<lambda>r. [EvParse st (is_Inr r)])"

definition Write_io :: "'e netlib \<Rightarrow> stream \<Rightarrow> byte list \<Rightarrow> ('e, 'm, nat \<times> go_error option) io" where
  "Write_io N st p = act (nl_Write N st p) (\<lambda>_. [EvWrite st p])"

definition Close_io :: "'e netlib \<Rightarrow> stream \<Rightarrow> ('e, 'm, go_error option) io" where
  "Close_io N st = act (nl_Close N st) (\<lambda>_. [EvClose st])"

definition CloseWrite_io :: "'e netlib \<Rightarrow> stream \<Rightarrow> ('e, 'm, go_error option) io" where
  "CloseWrite_io N st = act (nl_CloseWrite N st) (\<lambda>_. [EvCloseWrite st])"

definition CancelRead_io :: "'e netlib \<Rightarrow> stream \<Rightarrow> ('e, 'm, unit) io" where
  "CancelRead_io N st = act (nl_CancelRead N st) (\<lambda>_. [EvCancelRead st])"

definition CtxErr_io :: "'e netlib \<Rightarrow> ('e, 'm, go_error option) io" where
  "CtxErr_io N = act (nl_CtxErr N) (\<lambda>_. [])"

text \<open>\<open>SharedTransport.WriteTo\<close>: a bare datagram from the shared socket.\<close>

definition WriteTo_io :: "'e netlib \<Rightarrow> nat \<Rightarrow> byte list \<Rightarrow> addr_port \<Rightarrow> ('e, 'm, go_error option) io" where
  "WriteTo_io N t b a = act (nl_WriteTo N t b a) (\<lambda>_. [EvPunch t b a])"

section \<open>Running an action\<close>

lemma run_bind [run_simps]:
  "run_state (State_Monad.bind m f) w = (case run_state m w of (a, w') \<Rightarrow> run_state (f a) w')"
  by (simp add: State_Monad.bind_def)

lemma run_return [run_simps]: "run_state (State_Monad.return a) w = (a, w)"
  by (simp add: State_Monad.return_def)

lemma run_act [run_simps]:
  "run_state (act f ev) w
    = (fst (f (env w)), w\<lparr>env := snd (f (env w)), trace := trace w @ ev (fst (f (env w)))\<rparr>)"
  by (simp add: act_def split: prod.split)

lemma run_emit [run_simps]: "run_state (emit ev) w = ((), w\<lparr>trace := trace w @ [ev]\<rparr>)"
  by (simp add: emit_def)

lemma ok_value_simps [simp]: "ok_value (Inl e) = None" "ok_value (Inr b) = Some b"
  by (simp_all add: ok_value_def)

lemma ok_value_eq_Some [simp]: "ok_value r = Some b \<longleftrightarrow> r = Inr b"
  by (cases r) simp_all

lemma ok_value_eq_None [simp]: "ok_value r = None \<longleftrightarrow> (\<exists>e. r = Inl e)"
  by (cases r) simp_all

lemma is_Inr_simps [simp]: "\<not> is_Inr (Inl e)" "is_Inr (Inr b)"
  by (simp_all add: is_Inr_def)

lemmas io_defs = Dial_io_def OpenStream_io_def ConnClose_io_def WriteFrame_io_def ParseFrame_io_def
  Write_io_def Close_io_def CloseWrite_io_def CancelRead_io_def CtxErr_io_def
  WriteTo_io_def

declare io_defs [run_simps]

end
