(* ===== verification/Scripted.thy ===== *)
theory Scripted
  imports Transport
begin

text \<open>
  A network that follows a script: each call takes the next prepared result.  The
  concrete runs that show the hypotheses of the theorems to hold use it in the
  place of the real transport; no theorem about the agent depends on it.
\<close>

record script =
  sc_dials :: "(go_error + conn) list"
  sc_opens :: "(go_error + stream) list"
  sc_frames :: "(go_error + frame) list"
  sc_sends :: "go_error option list"
  sc_writes :: "(nat \<times> go_error option) list"
  sc_ctx :: "go_error option list"

definition idle_script :: script where
  "idle_script = \<lparr>sc_dials = [], sc_opens = [], sc_frames = [], sc_sends = [], sc_writes = [], sc_ctx = []\<rparr>"

fun pop :: "'a \<Rightarrow> 'a list \<Rightarrow> 'a \<times> 'a list" where
  "pop d [] = (d, [])"
| "pop d (x # xs) = (x, xs)"

definition scripted :: "script netlib" where
  "scripted = \<lparr>
     nl_Dial = (\<lambda>d a s. case pop (Inl DeadlineExceeded) (sc_dials s) of (r, l) \<Rightarrow> (r, s\<lparr>sc_dials := l\<rparr>)),
     nl_OpenStream = (\<lambda>c s. case pop (Inl NetClosed) (sc_opens s) of (r, l) \<Rightarrow> (r, s\<lparr>sc_opens := l\<rparr>)),
     nl_ConnClose = (\<lambda>c s. (None, s)),
     nl_WriteFrame = (\<lambda>st t m s. case pop None (sc_sends s) of (r, l) \<Rightarrow> (r, s\<lparr>sc_sends := l\<rparr>)),
     nl_ParseFrame = (\<lambda>st s. case pop (Inl EOF) (sc_frames s) of (r, l) \<Rightarrow> (r, s\<lparr>sc_frames := l\<rparr>)),
     nl_Write = (\<lambda>st p s. case pop (length p, None) (sc_writes s) of (r, l) \<Rightarrow> (r, s\<lparr>sc_writes := l\<rparr>)),
     nl_Close = (\<lambda>st s. (None, s)),
     nl_CloseWrite = (\<lambda>st s. (None, s)),
     nl_CancelRead = (\<lambda>st s. ((), s)),
     nl_CtxErr = (\<lambda>s. case pop None (sc_ctx s) of (r, l) \<Rightarrow> (r, s\<lparr>sc_ctx := l\<rparr>)),
     nl_WriteTo = (\<lambda>t b a s. (None, s))\<rparr>"

text \<open>A decoder that reads the numbers of a message from the payload bytes.\<close>

definition byte_at :: "frame \<Rightarrow> nat \<Rightarrow> ('a :: len) word" where
  "byte_at f i = (if i < length (f_Payload f) then ucast (f_Payload f ! i) else 0)"

definition expect :: "frame_type \<Rightarrow> (frame \<Rightarrow> 'a) \<Rightarrow> frame \<Rightarrow> go_error + 'a" where
  "expect t d f = (if f_Type f = t then Inr (d f) else Inl (LibError 2))"

definition scripted_orp :: orp_lib where
  "scripted_orp = \<lparr>
     um_HelloAck = (\<lambda>f. if f_Type f = FtHelloAck then None else Some (LibError 2)),
     um_IncomingStream = expect FtIncomingStream
       (\<lambda>f. \<lparr>in_StreamId = byte_at f 0, in_TargetService = ''svc-x''\<rparr>),
     um_StreamResume = expect FtStreamResume
       (\<lambda>f. \<lparr>sr_StreamId = byte_at f 0, sr_MyPosition = byte_at f 1, sr_PeerAckPosition = byte_at f 2\<rparr>),
     um_StreamCheckpoint = expect FtStreamCheckpoint
       (\<lambda>f. \<lparr>cp_StreamId = byte_at f 0, cp_MyPosition = byte_at f 1, cp_PeerAckPosition = byte_at f 2\<rparr>),
     um_StreamReady = expect FtStreamReady (\<lambda>f. byte_at f 0),
     um_AllocGranted = expect FtAllocGranted
       (\<lambda>f. \<lparr>g_StreamId = byte_at f 0, g_MyAllocation = byte_at f 1, g_PeerAllocation = byte_at f 2,
          g_ForwardEndpoint = ''10.0.0.1:7446''\<rparr>),
     um_CandidateOffer = expect FtCandidateOffer
       (\<lambda>f. \<lparr>cs_StreamId = byte_at f 0, cs_Candidates = []\<rparr>),
     um_CandidateAnswer = expect FtCandidateAnswer
       (\<lambda>f. \<lparr>cs_StreamId = byte_at f 0, cs_Candidates = []\<rparr>),
     um_ObservedAddrResp = expect FtObservedAddrResp
       (\<lambda>f. \<lparr>oar_RequestId = byte_at f 0, oar_Ip = ''203.0.113.9'', oar_Port = byte_at f 1\<rparr>)\<rparr>"

definition frame_of :: "frame_type \<Rightarrow> byte list \<Rightarrow> go_error + frame" where
  "frame_of t p = Inr \<lparr>f_Type = t, f_Payload = p\<rparr>"

definition script_world :: "script \<Rightarrow> script world" where
  "script_world s = \<lparr>env = s, trace = []\<rparr>"

lemmas script_defs = scripted_def idle_script_def scripted_orp_def byte_at_def expect_def frame_of_def
  script_world_def

end
