(* ===== verification/Resumable.thy ===== *)
theory Resumable
  imports Scripted
begin

text \<open>
  \<open>ResumableStream\<close> of \<open>pkg/session/session.go\<close>: the wrapper whose inner stream can be
  replaced while reads and writes are in flight.  Its operations run in several
  goroutines, so they are modelled as threads over the shared record: a thread's
  program counter (\<open>pc\<close>) says where in the code it stands, and one step of a
  thread is one critical section, one call of the inner stream or one call of
  \<open>lib/resume\<close>.  \<open>conc_reachable\<close> collects the states of all interleavings.

  \<open>lib/resume\<close> is an argument, the record \<open>resume_lib\<close>; what the code relies on is the
  predicate \<open>resume_contract\<close>, which the theorems about retransmission assume.
  Byte positions are 64-bit values, as on the wire.
\<close>

section \<open>The resume library\<close>

record 's resume_lib =
  rl_NewState :: "uint64 \<Rightarrow> 's"
  rl_OnRead :: "nat \<Rightarrow> 's \<Rightarrow> 's"
  rl_OnWrite :: "byte list \<Rightarrow> 's \<Rightarrow> 's"
  rl_OnCheckpoint :: "uint64 \<Rightarrow> 's \<Rightarrow> 's"
  rl_RetransmitFrom :: "uint64 \<Rightarrow> 's \<Rightarrow> go_error + byte list"
  rl_ResumePayload :: "'s \<Rightarrow> uint64 \<times> uint64"
  rl_Sent :: "'s \<Rightarrow> uint64"
  rl_Received :: "'s \<Rightarrow> uint64"

text \<open>
  The documented behaviour of the ring buffer, in terms of what it stands for: all
  bytes written so far, how many of them are no longer buffered, and the number of
  bytes read.  A checkpoint frees at most what the peer acknowledged.
\<close>

record ring_view =
  written_bytes :: "byte list"
  evicted :: nat
  read_count :: nat

definition resume_contract :: "'s resume_lib \<Rightarrow> ('s \<Rightarrow> ring_view) \<Rightarrow> bool" where
  "resume_contract R view \<longleftrightarrow>
     (\<forall>i. view (rl_NewState R i) = \<lparr>written_bytes = [], evicted = 0, read_count = 0\<rparr>) \<and>
     (\<forall>s. evicted (view s) \<le> length (written_bytes (view s))) \<and>
     (\<forall>n s. written_bytes (view (rl_OnRead R n s)) = written_bytes (view s)
        \<and> evicted (view (rl_OnRead R n s)) = evicted (view s)
        \<and> read_count (view (rl_OnRead R n s)) = read_count (view s) + n) \<and>
     (\<forall>p s. written_bytes (view (rl_OnWrite R p s)) = written_bytes (view s) @ p
        \<and> evicted (view s) \<le> evicted (view (rl_OnWrite R p s))
        \<and> read_count (view (rl_OnWrite R p s)) = read_count (view s)) \<and>
     (\<forall>k s. written_bytes (view (rl_OnCheckpoint R k s)) = written_bytes (view s)
        \<and> evicted (view (rl_OnCheckpoint R k s)) \<le> max (evicted (view s)) (unat k)
        \<and> read_count (view (rl_OnCheckpoint R k s)) = read_count (view s)) \<and>
     (\<forall>s. rl_Sent R s = of_nat (length (written_bytes (view s)))) \<and>
     (\<forall>s. rl_Received R s = of_nat (read_count (view s))) \<and>
     (\<forall>s. rl_ResumePayload R s = (rl_Sent R s, rl_Received R s)) \<and>
     (\<forall>k s. evicted (view s) \<le> unat k \<longrightarrow> unat k \<le> length (written_bytes (view s)) \<longrightarrow>
        rl_RetransmitFrom R k s = Inr (drop (unat k) (written_bytes (view s)))) \<and>
     (\<forall>k s. unat k < evicted (view s) \<longrightarrow> rl_RetransmitFrom R k s = Inl BeforeRing)"

lemma resume_contractD:
  assumes "resume_contract R view"
  shows "view (rl_NewState R i) = \<lparr>written_bytes = [], evicted = 0, read_count = 0\<rparr>"
    and "evicted (view s) \<le> length (written_bytes (view s))"
    and "written_bytes (view (rl_OnRead R n s)) = written_bytes (view s)"
    and "evicted (view (rl_OnRead R n s)) = evicted (view s)"
    and "read_count (view (rl_OnRead R n s)) = read_count (view s) + n"
    and "written_bytes (view (rl_OnWrite R p s)) = written_bytes (view s) @ p"
    and "read_count (view (rl_OnWrite R p s)) = read_count (view s)"
    and "written_bytes (view (rl_OnCheckpoint R k s)) = written_bytes (view s)"
    and "read_count (view (rl_OnCheckpoint R k s)) = read_count (view s)"
    and "rl_Sent R s = of_nat (length (written_bytes (view s)))"
    and "rl_Received R s = of_nat (read_count (view s))"
    and "rl_ResumePayload R s = (rl_Sent R s, rl_Received R s)"
    and "evicted (view s) \<le> unat k \<Longrightarrow> unat k \<le> length (written_bytes (view s)) \<Longrightarrow>
      rl_RetransmitFrom R k s = Inr (drop (unat k) (written_bytes (view s)))"
    and "unat k < evicted (view s) \<Longrightarrow> rl_RetransmitFrom R k s = Inl BeforeRing"
    and "evicted (view (rl_OnCheckpoint R k s)) \<le> max (evicted (view s)) (unat k)"
  using assms unfolding resume_contract_def by blast+

text \<open>A ring that keeps its last \<open>cap\<close> bytes, for the concrete runs.\<close>

definition list_ring :: "nat \<Rightarrow> ring_view resume_lib" where
  "list_ring cap = \<lparr>
     rl_NewState = (\<lambda>_. \<lparr>written_bytes = [], evicted = 0, read_count = 0\<rparr>),
     rl_OnRead = (\<lambda>n s. s\<lparr>read_count := read_count s + n\<rparr>),
     rl_OnWrite = (\<lambda>p s. s\<lparr>written_bytes := written_bytes s @ p,
        evicted := max (evicted s) (length (written_bytes s @ p) - cap)\<rparr>),
     rl_OnCheckpoint = (\<lambda>k s. s\<lparr>evicted := max (evicted s) (min (unat k) (length (written_bytes s)))\<rparr>),
     rl_RetransmitFrom = (\<lambda>k s. if unat k < min (evicted s) (length (written_bytes s)) then Inl BeforeRing
        else Inr (drop (unat k) (written_bytes s))),
     rl_ResumePayload = (\<lambda>s. (of_nat (length (written_bytes s)), of_nat (read_count s))),
     rl_Sent = (\<lambda>s. of_nat (length (written_bytes s))),
     rl_Received = (\<lambda>s. of_nat (read_count s))\<rparr>"

definition ring_norm :: "ring_view \<Rightarrow> ring_view" where
  "ring_norm s = s\<lparr>evicted := min (evicted s) (length (written_bytes s))\<rparr>"

lemma list_ring_contract: "resume_contract (list_ring cap) ring_norm"
  unfolding resume_contract_def
  by (auto simp: list_ring_def ring_norm_def)

section \<open>The wrapper\<close>

type_synonym chan = nat

record 's rstream =
  rs_ID :: uint64
  rs_inner :: stream
  rs_state :: 's
  rs_resumeReady :: "chan option"
  rs_abandoned :: bool

definition ResumeRetryWindow :: nat where
  "ResumeRetryWindow = 30000000000"

text \<open>Where a goroutine stands in one of the wrapper's methods, and what it will return.\<close>

datatype pc =
    Idle
  | ReadTop nat | ReadInner nat stream "chan option" | ReadGot "byte list" "go_error option"
  | ReadPark nat "chan option" go_error | ReadRet "byte list" "go_error option"
  | WriteTop "byte list" nat | WriteInner "byte list" nat stream "chan option"
  | WriteGot "byte list" nat nat "chan option" "go_error option"
  | WritePark "byte list" nat "chan option" go_error | WriteRet "byte list" nat "go_error option"
  | SwapTop stream | SwapClose "chan option" stream | SwapCancel stream
  | AbandonTop
  | CloseTop | CloseAgain | CloseInner
  | ResumeGap uint64 stream | ResumeWrite "byte list" stream
  | CheckpointTop uint64
  | Done

datatype choice = Go | InnerRead "byte list" "go_error option" | InnerWrite nat "go_error option"
  | Woken | TimerFires

text \<open>
  The shared state: the wrapper, the channels, the threads.  \<open>wire\<close> records what each
  transport stream accepted, \<open>accepted\<close> and \<open>logged\<close> what the current call of a
  thread had accepted by inner streams and handed to \<open>OnWrite\<close>; \<open>cancelled\<close> and
  \<open>shut\<close> are the streams \<open>CancelRead\<close> and \<open>Close\<close> were called on, and \<open>panicked\<close>
  says that a closed channel was closed again.
\<close>

record 's conc =
  wrapper :: "'s rstream"
  chans_closed :: "chan set"
  next_chan :: chan
  threads :: "nat \<Rightarrow> pc"
  wire :: "stream \<Rightarrow> byte list"
  accepted :: "nat \<Rightarrow> byte list"
  logged :: "nat \<Rightarrow> byte list"
  cancelled :: "stream set"
  shut :: "stream set"
  panicked :: bool

definition goto :: "nat \<Rightarrow> pc \<Rightarrow> 's conc \<Rightarrow> 's conc" where
  "goto t p c = c\<lparr>threads := (threads c)(t := p)\<rparr>"

definition close_chan :: "chan option \<Rightarrow> 's conc \<Rightarrow> 's conc" where
  "close_chan ch c = (case ch of
       None \<Rightarrow> c
     | Some x \<Rightarrow> if x \<in> chans_closed c then c\<lparr>panicked := True\<rparr>
         else c\<lparr>chans_closed := insert x (chans_closed c)\<rparr>)"

text \<open>\<open>markAbandoned\<close>, one critical section.\<close>

definition markAbandoned :: "'s conc \<Rightarrow> 's conc" where
  "markAbandoned c = (if rs_abandoned (wrapper c) then c
     else (close_chan (rs_resumeReady (wrapper c)) c)
       \<lparr>wrapper := (wrapper c)\<lparr>rs_abandoned := True, rs_resumeReady := None\<rparr>\<rparr>)"

text \<open>The critical section of \<open>SwapInner\<close>; the closing of the old channel follows outside it.\<close>

definition swap_locked :: "stream \<Rightarrow> 's conc \<Rightarrow> 's conc" where
  "swap_locked st c = c\<lparr>wrapper := (wrapper c)\<lparr>rs_inner := st, rs_resumeReady := Some (next_chan c)\<rparr>,
     next_chan := next_chan c + 1\<rparr>"

definition after_write :: "byte list \<Rightarrow> nat \<Rightarrow> chan option \<Rightarrow> go_error option \<Rightarrow> pc" where
  "after_write p k ready err =
     (if k = length p then WriteRet p k None
      else case err of
        None \<Rightarrow> WriteTop p k
      | Some e \<Rightarrow> if errors_Is e EOF then WriteRet p k (Some e) else WritePark p k ready e)"

definition after_read :: "nat \<Rightarrow> chan option \<Rightarrow> byte list \<Rightarrow> go_error option \<Rightarrow> pc" where
  "after_read n ready b err =
     (if b \<noteq> [] then ReadGot b err
      else case err of
        None \<Rightarrow> ReadRet [] None
      | Some e \<Rightarrow> if errors_Is e EOF then ReadRet [] (Some e) else ReadPark n ready e)"

definition woken :: "'s conc \<Rightarrow> chan option \<Rightarrow> bool" where
  "woken c ready = (case ready of None \<Rightarrow> False | Some x \<Rightarrow> x \<in> chans_closed c)"

text \<open>
  One step of thread \<open>t\<close>; \<open>None\<close> when the thread is not at a point where the given
  choice can happen.
\<close>

fun step_pc :: "'s resume_lib \<Rightarrow> nat \<Rightarrow> pc \<Rightarrow> choice \<Rightarrow> 's conc \<Rightarrow> 's conc option" where
  "step_pc R t (ReadTop n) ch c = (if ch \<noteq> Go then None else Some (
     if rs_abandoned (wrapper c) then goto t (ReadRet [] (Some StreamLost)) c
     else goto t (ReadInner n (rs_inner (wrapper c)) (rs_resumeReady (wrapper c))) c))"
| "step_pc R t (ReadInner n st ready) ch c = (case ch of
       InnerRead b err \<Rightarrow> if length b \<le> n then Some (goto t (after_read n ready b err) c) else None
     | _ \<Rightarrow> None)"
| "step_pc R t (ReadGot b err) ch c = (if ch \<noteq> Go then None else Some (goto t (ReadRet b err)
     (c\<lparr>wrapper := (wrapper c)\<lparr>rs_state := rl_OnRead R (length b) (rs_state (wrapper c))\<rparr>\<rparr>)))"
| "step_pc R t (ReadPark n ready e) ch c = (case ch of
       Woken \<Rightarrow> if woken c ready then Some (goto t (ReadTop n) c) else None
     | TimerFires \<Rightarrow> Some (goto t (ReadRet [] (Some e)) c)
     | _ \<Rightarrow> None)"
| "step_pc R t (WriteTop p k) ch c = (if ch \<noteq> Go then None else Some (
     if k < length p then
       if rs_abandoned (wrapper c) then goto t (WriteRet p k (Some StreamLost)) c
       else goto t (WriteInner p k (rs_inner (wrapper c)) (rs_resumeReady (wrapper c))) c
     else goto t (WriteRet p k None) c))"
| "step_pc R t (WriteInner p k st ready) ch c = (case ch of
       InnerWrite n err \<Rightarrow>
         if n \<le> length p - k then Some (goto t (WriteGot p k n ready err)
           (c\<lparr>wire := (wire c)(st := wire c st @ take n (drop k p)),
              accepted := (accepted c)(t := accepted c t @ take n (drop k p))\<rparr>))
         else None
     | _ \<Rightarrow> None)"
| "step_pc R t (WriteGot p k n ready err) ch c = (if ch \<noteq> Go then None else Some (
     goto t (after_write p (k + n) ready err)
       (if n > 0 then c\<lparr>wrapper := (wrapper c)\<lparr>rs_state := rl_OnWrite R (take n (drop k p)) (rs_state (wrapper c))\<rparr>,
            logged := (logged c)(t := logged c t @ take n (drop k p))\<rparr>
        else c)))"
| "step_pc R t (WritePark p k ready e) ch c = (case ch of
       Woken \<Rightarrow> if woken c ready then Some (goto t (WriteTop p k) c) else None
     | TimerFires \<Rightarrow> Some (goto t (WriteRet p k (Some e)) c)
     | _ \<Rightarrow> None)"
| "step_pc R t (SwapTop st) ch c = (if ch \<noteq> Go then None else Some (
     goto t (SwapClose (rs_resumeReady (wrapper c)) (rs_inner (wrapper c))) (swap_locked st c)))"
| "step_pc R t (SwapClose ready old) ch c = (if ch \<noteq> Go then None else Some (
     goto t (SwapCancel old) (close_chan ready c)))"
| "step_pc R t (SwapCancel old) ch c = (if ch \<noteq> Go then None else Some (
     goto t Done (c\<lparr>cancelled := insert old (cancelled c)\<rparr>)))"
| "step_pc R t AbandonTop ch c = (if ch \<noteq> Go then None else Some (goto t Done (markAbandoned c)))"
| "step_pc R t CloseTop ch c = (if ch \<noteq> Go then None else Some (goto t CloseAgain (markAbandoned c)))"
| "step_pc R t CloseAgain ch c = (if ch \<noteq> Go then None else Some (goto t CloseInner (markAbandoned c)))"
| "step_pc R t CloseInner ch c = (if ch \<noteq> Go then None else Some (
     goto t Done (c\<lparr>shut := insert (rs_inner (wrapper c)) (shut c)\<rparr>)))"
| "step_pc R t (ResumeGap ack st) ch c = (if ch \<noteq> Go then None else Some (
     case rl_RetransmitFrom R ack (rs_state (wrapper c)) of
       Inl _ \<Rightarrow> goto t Done (c\<lparr>shut := insert st (shut c)\<rparr>)
     | Inr gap \<Rightarrow> goto t (if gap = [] then SwapTop st else ResumeWrite gap st) c))"
| "step_pc R t (ResumeWrite gap st) ch c = (case ch of
       InnerWrite n err \<Rightarrow>
         if n \<le> length gap then Some (
           let c' = c\<lparr>wire := (wire c)(st := wire c st @ take n gap)\<rparr> in
           case err of
             Some _ \<Rightarrow> goto t Done (c'\<lparr>shut := insert st (shut c')\<rparr>)
           | None \<Rightarrow> goto t (SwapTop st) c')
         else None
     | _ \<Rightarrow> None)"
| "step_pc R t (CheckpointTop ack) ch c = (if ch \<noteq> Go then None else Some (goto t Done
     (c\<lparr>wrapper := (wrapper c)\<lparr>rs_state := rl_OnCheckpoint R ack (rs_state (wrapper c))\<rparr>\<rparr>)))"
| "step_pc R t Idle ch c = None"
| "step_pc R t Done ch c = None"
| "step_pc R t (ReadRet b err) ch c = None"
| "step_pc R t (WriteRet p k err) ch c = None"

definition step :: "'s resume_lib \<Rightarrow> nat \<Rightarrow> choice \<Rightarrow> 's conc \<Rightarrow> 's conc option" where
  "step R t ch c = step_pc R t (threads c t) ch c"

section \<open>Interleavings\<close>

definition new_conc :: "'s resume_lib \<Rightarrow> uint64 \<Rightarrow> stream \<Rightarrow> 's conc" where
  "new_conc R i st = \<lparr>
     wrapper = \<lparr>rs_ID = i, rs_inner = st, rs_state = rl_NewState R i, rs_resumeReady = Some 0,
       rs_abandoned = False\<rparr>,
     chans_closed = {}, next_chan = 1, threads = (\<lambda>_. Idle), wire = (\<lambda>_. []),
     accepted = (\<lambda>_. []), logged = (\<lambda>_. []), cancelled = {}, shut = {}, panicked = False\<rparr>"

fun at_rest :: "pc \<Rightarrow> bool" where
  "at_rest Idle = True"
| "at_rest Done = True"
| "at_rest (ReadRet b err) = True"
| "at_rest (WriteRet p k err) = True"
| "at_rest _ = False"

fun entry :: "pc \<Rightarrow> bool" where
  "entry (ReadTop n) = True"
| "entry (WriteTop p k) = (k = 0)"
| "entry (SwapTop st) = True"
| "entry AbandonTop = True"
| "entry CloseTop = True"
| "entry (ResumeGap ack st) = True"
| "entry (CheckpointTop ack) = True"
| "entry _ = False"

definition begin_call :: "nat \<Rightarrow> pc \<Rightarrow> 's conc \<Rightarrow> 's conc" where
  "begin_call t p c = (goto t p c)\<lparr>accepted := (accepted c)(t := []), logged := (logged c)(t := [])\<rparr>"

inductive conc_reachable :: "'s resume_lib \<Rightarrow> uint64 \<Rightarrow> stream \<Rightarrow> 's conc \<Rightarrow> bool"
  for R :: "'s resume_lib" and i :: uint64 and st :: stream where
  conc_new: "conc_reachable R i st (new_conc R i st)"
| conc_call: "conc_reachable R i st c \<Longrightarrow> at_rest (threads c t) \<Longrightarrow> entry p \<Longrightarrow>
    conc_reachable R i st (begin_call t p c)"
| conc_step: "conc_reachable R i st c \<Longrightarrow> step R t ch c = Some c' \<Longrightarrow> conc_reachable R i st c'"

text \<open>Runs by a list of moves, for the concrete executions.\<close>

datatype move = Call nat pc | Step nat choice

fun exec :: "'s resume_lib \<Rightarrow> move list \<Rightarrow> 's conc \<Rightarrow> 's conc option" where
  "exec R [] c = Some c"
| "exec R (Call t p # ms) c =
     (if at_rest (threads c t) \<and> entry p then exec R ms (begin_call t p c) else None)"
| "exec R (Step t ch # ms) c = (case step R t ch c of None \<Rightarrow> None | Some c' \<Rightarrow> exec R ms c')"

lemma exec_reachable:
  "exec R ms c = Some c' \<Longrightarrow> conc_reachable R i st c \<Longrightarrow> conc_reachable R i st c'"
  by (induction R ms c rule: exec.induct)
    (auto split: if_splits option.splits intro: conc_call conc_step)

end
