(* ===== verification/Session.thy ===== *)
theory Session
  imports Resumable
begin

text \<open>
  The \<open>Session\<close> of \<open>pkg/session/session.go\<close>: bring-up (\<open>DialWithDialer\<close>, \<open>DialAny\<close>,
  \<open>DialAnyHappy\<close>), \<open>Expose\<close>, \<open>Dial\<close>, the table of active streams, \<open>Resume\<close>,
  \<open>Reconnect\<close>, \<open>RunWithReconnect\<close> and the accept loop.

  A session's fields are the record \<open>session\<close>.  Its methods act on \<open>sworld\<close>: the
  outside world, the session, and the store of the objects it points to (stream
  wrappers by reference, channels by number).  Loops over Go maps take the order of
  the iteration as an argument, since the language leaves it open.
\<close>

section \<open>State\<close>

record session =
  ss_conn :: conn
  ss_ctrl :: stream
  ss_agentURI :: string
  ss_handlers :: "string \<rightharpoonup> nat"
  ss_streams :: "uint64 \<rightharpoonup> nat"
  ss_pendingAnswers :: "(uint64 \<rightharpoonup> nat) option"
  ss_pendingMode :: "(uint64 \<rightharpoonup> nat) option"
  ss_localCandidates :: "pb_candidate list"
  ss_p2pEnabled :: bool
  ss_p2pCtx :: bool
  ss_reconnecting :: bool
  ss_dialer :: "dialer option"
  ss_forwardTLS :: "tls_config option"

record ('e, 's) sworld = "'e world" +
  sess :: session
  objs :: "nat \<rightharpoonup> 's rstream"
  next_obj :: nat
  closed_ch :: "chan set"
  next_ch :: chan
  id_pos :: nat
  mode_buf :: "nat \<Rightarrow> alloc_granted option option"
  answer_buf :: "nat \<Rightarrow> candidate_set option"
  next_buf :: nat

text \<open>A session with an empty store.\<close>

definition start_sworld :: "'e \<Rightarrow> session \<Rightarrow> ('e, 's) sworld" where
  "start_sworld e s = \<lparr>env = e, trace = [], sess = s, objs = Map.empty, next_obj = 0, closed_ch = {},
     next_ch = 0, id_pos = 0, mode_buf = (\<lambda>_. None), answer_buf = (\<lambda>_. None), next_buf = 0\<rparr>"

type_synonym ('e, 's, 'a) sio = "(('e, 's) sworld, 'a) state"

definition get :: "(session \<Rightarrow> 'a) \<Rightarrow> ('e, 's, 'a) sio" where
  "get f = State (\<lambda>w. (f (sess w), w))"

definition put_sess :: "(session \<Rightarrow> session) \<Rightarrow> ('e, 's, unit) sio" where
  "put_sess f = State (\<lambda>w. ((), w\<lparr>sess := f (sess w)\<rparr>))"

definition upd :: "(('e, 's) sworld \<Rightarrow> ('e, 's) sworld) \<Rightarrow> ('e, 's, unit) sio" where
  "upd f = State (\<lambda>w. ((), f w))"

definition obs :: "(('e, 's) sworld \<Rightarrow> 'a) \<Rightarrow> ('e, 's, 'a) sio" where
  "obs f = State (\<lambda>w. (f w, w))"

lemma run_session [run_simps]:
  "run_state (get f) w = (f (sess w), w)"
  "run_state (put_sess g) w = ((), w\<lparr>sess := g (sess w)\<rparr>)"
  "run_state (upd h) w = ((), h w)"
  "run_state (obs k) w = (k w, w)"
  by (simp_all add: get_def put_sess_def upd_def obs_def)

section \<open>Bring-up\<close>

definition new_session :: "conn \<Rightarrow> stream \<Rightarrow> string \<Rightarrow> dialer \<Rightarrow> session" where
  "new_session c ctrl uri d = \<lparr>ss_conn = c, ss_ctrl = ctrl, ss_agentURI = uri, ss_handlers = Map.empty,
     ss_streams = Map.empty, ss_pendingAnswers = None, ss_pendingMode = None, ss_localCandidates = [],
     ss_p2pEnabled = False, ss_p2pCtx = False, ss_reconnecting = False, ss_dialer = Some d,
     ss_forwardTLS = None\<rparr>"

definition DialWithDialer ::
  "'e netlib \<Rightarrow> orp_lib \<Rightarrow> dialer \<Rightarrow> string \<Rightarrow> string \<Rightarrow> ('e, 'm, go_error + session) io" where
  "DialWithDialer N L d addr uri = do {
     r \<leftarrow> Dial_io N d addr;
     case r of
       Inl e \<Rightarrow> State_Monad.return (Inl e)
     | Inr c \<Rightarrow> do {
         o1 \<leftarrow> OpenStream_io N c;
         case o1 of
           Inl e \<Rightarrow> do { _ \<leftarrow> ConnClose_io N c; State_Monad.return (Inl (Wrapf ''session: open ctrl'' e)) }
         | Inr ctrl \<Rightarrow> do {
             h \<leftarrow> WriteFrame_io N ctrl FtHello (MHello ''orp/1'' uri);
             case h of
               Some e \<Rightarrow> do { _ \<leftarrow> ConnClose_io N c; State_Monad.return (Inl (Wrapf ''session: send HELLO'' e)) }
             | None \<Rightarrow> do {
                 p \<leftarrow> ParseFrame_io N ctrl;
                 case p of
                   Inl e \<Rightarrow> do { _ \<leftarrow> ConnClose_io N c;
                     State_Monad.return (Inl (Wrapf ''session: read HELLO_ACK'' e)) }
                 | Inr f \<Rightarrow> (case um_HelloAck L f of
                       Some e \<Rightarrow> do { _ \<leftarrow> ConnClose_io N c; State_Monad.return (Inl e) }
                     | None \<Rightarrow> State_Monad.return (Inr (new_session c ctrl uri d)))
               }
           }
       }
   }"

definition Dial_session :: "'e netlib \<Rightarrow> orp_lib \<Rightarrow> string \<Rightarrow> string \<Rightarrow> ('e, 'm, go_error + session) io" where
  "Dial_session N L addr uri = DialWithDialer N L DefaultDialer addr uri"

definition first_err :: "go_error option \<Rightarrow> go_error \<Rightarrow> go_error option" where
  "first_err fe e = (case fe of None \<Rightarrow> Some e | Some _ \<Rightarrow> fe)"

definition all_failed :: "go_error option \<Rightarrow> go_error + session" where
  "all_failed fe = Inl (case fe of
       Some e \<Rightarrow> Wrapf ''session: all relay endpoints failed'' e
     | None \<Rightarrow> ErrorNew ''session: all relay endpoints failed'')"

fun dial_any_loop ::
  "'e netlib \<Rightarrow> orp_lib \<Rightarrow> string \<Rightarrow> string list \<Rightarrow> go_error option \<Rightarrow> ('e, 'm, go_error + session) io" where
  "dial_any_loop N L uri [] fe = State_Monad.return (all_failed fe)"
| "dial_any_loop N L uri (addr # addrs) fe = do {
     r \<leftarrow> Dial_session N L addr uri;
     case r of
       Inr s \<Rightarrow> State_Monad.return (Inr s)
     | Inl e \<Rightarrow> dial_any_loop N L uri addrs (first_err fe e)
   }"

definition DialAny :: "'e netlib \<Rightarrow> orp_lib \<Rightarrow> string list \<Rightarrow> string \<Rightarrow> ('e, 'm, go_error + session) io" where
  "DialAny N L addrs uri =
     (if addrs = [] then State_Monad.return (Inl (ErrorNew ''session: no relay addresses''))
      else dial_any_loop N L uri addrs None)"

definition Close_session :: "'e netlib \<Rightarrow> session \<Rightarrow> ('e, 'm, go_error option) io" where
  "Close_session N s = ConnClose_io N (ss_conn s)"

text \<open>
  \<open>DialAnyHappy\<close> runs all attempts concurrently; \<open>arrivals\<close> is the order in which they
  complete.  The collecting loop keeps the first session and closes later ones.
\<close>

fun happy_loop ::
  "'e netlib \<Rightarrow> orp_lib \<Rightarrow> dialer \<Rightarrow> string \<Rightarrow> string list \<Rightarrow> session option \<Rightarrow> go_error option \<Rightarrow>
     ('e, 'm, session option \<times> go_error option) io" where
  "happy_loop N L d uri [] winner fe = State_Monad.return (winner, fe)"
| "happy_loop N L d uri (addr # addrs) winner fe = do {
     r \<leftarrow> DialWithDialer N L d addr uri;
     case r of
       Inr s \<Rightarrow> (case winner of
           None \<Rightarrow> happy_loop N L d uri addrs (Some s) fe
         | Some _ \<Rightarrow> do { _ \<leftarrow> Close_session N s; happy_loop N L d uri addrs winner fe })
     | Inl e \<Rightarrow> happy_loop N L d uri addrs winner (first_err fe e)
   }"

definition DialAnyHappy ::
  "'e netlib \<Rightarrow> orp_lib \<Rightarrow> dialer \<Rightarrow> string list \<Rightarrow> string list \<Rightarrow> string \<Rightarrow>
     ('e, 'm, go_error + session) io" where
  "DialAnyHappy N L d addrs arrivals uri =
     (if addrs = [] then State_Monad.return (Inl (ErrorNew ''session: no relay addresses''))
      else if length addrs = 1 then DialWithDialer N L d (hd addrs) uri
      else do {
        r \<leftarrow> happy_loop N L d uri arrivals None None;
        State_Monad.return (case fst r of Some s \<Rightarrow> Inr s | None \<Rightarrow> all_failed (snd r))
      })"

definition SetForwardServerTLS :: "tls_config option \<Rightarrow> ('e, 's, unit) sio" where
  "SetForwardServerTLS c = put_sess (\<lambda>s. s\<lparr>ss_forwardTLS := c\<rparr>)"

section \<open>Services and stream identifiers\<close>

definition Expose :: "'e netlib \<Rightarrow> string \<Rightarrow> string \<Rightarrow> nat \<Rightarrow> ('e, 's, go_error option) sio" where
  "Expose N name localAddr h = do {
     put_sess (\<lambda>s. s\<lparr>ss_handlers := (ss_handlers s)(name \<mapsto> h)\<rparr>);
     ctrl \<leftarrow> get ss_ctrl;
     w \<leftarrow> WriteFrame_io N ctrl FtRegister (MRegister name localAddr);
     case w of
       Some e \<Rightarrow> State_Monad.return (Some (Wrapf ''session: send REGISTER'' e))
     | None \<Rightarrow> do {
         p \<leftarrow> ParseFrame_io N ctrl;
         case p of
           Inl e \<Rightarrow> State_Monad.return (Some (Wrapf ''session: read REGISTER_ACK'' e))
         | Inr f \<Rightarrow> State_Monad.return
             (if f_Type f \<noteq> FtRegisterAck then Some (ErrorNew ''session: expected REGISTER_ACK'') else None)
       }
   }"

text \<open>
  \<open>ids k\<close> is the \<open>k\<close>-th identifier \<open>resume.NewStreamID\<close> generates.  The loop goes on
  while the identifier is in use; \<open>None\<close> stands for a loop that does not end.
\<close>

partial_function (option) freshStreamID ::
  "(nat \<Rightarrow> uint64) \<Rightarrow> (uint64 \<rightharpoonup> nat) \<Rightarrow> nat \<Rightarrow> (uint64 \<times> nat) option" where
  "freshStreamID ids active k =
     (if active (ids k) \<noteq> None then freshStreamID ids active (k + 1) else Some (ids k, k + 1))"

section \<open>The table of active streams\<close>

definition wrapStream :: "'s resume_lib \<Rightarrow> uint64 \<Rightarrow> stream \<Rightarrow> ('e, 's, nat) sio" where
  "wrapStream R i inner = do {
     ref \<leftarrow> obs next_obj;
     ch \<leftarrow> obs next_ch;
     upd (\<lambda>w. w\<lparr>objs := (objs w)(ref \<mapsto> \<lparr>rs_ID = i, rs_inner = inner, rs_state = rl_NewState R i,
            rs_resumeReady = Some ch, rs_abandoned = False\<rparr>),
          next_obj := ref + 1, next_ch := ch + 1\<rparr>);
     put_sess (\<lambda>s. s\<lparr>ss_streams := (ss_streams s)(i \<mapsto> ref)\<rparr>);
     State_Monad.return ref
   }"

text \<open>\<open>markAbandoned\<close> and \<open>SwapInner\<close> of the wrapper a reference points to.\<close>

definition close_ready :: "chan option \<Rightarrow> ('e, 's) sworld \<Rightarrow> ('e, 's) sworld" where
  "close_ready ch w = (case ch of None \<Rightarrow> w | Some x \<Rightarrow> w\<lparr>closed_ch := insert x (closed_ch w)\<rparr>)"

definition mark_abandoned :: "nat \<Rightarrow> ('e, 's, unit) sio" where
  "mark_abandoned ref = upd (\<lambda>w. case objs w ref of
       None \<Rightarrow> w
     | Some rs \<Rightarrow> if rs_abandoned rs then w
         else (close_ready (rs_resumeReady rs) w)
           \<lparr>objs := (objs w)(ref \<mapsto> rs\<lparr>rs_abandoned := True, rs_resumeReady := None\<rparr>)\<rparr>)"

definition SwapInner :: "'e netlib \<Rightarrow> nat \<Rightarrow> stream \<Rightarrow> ('e, 's, unit) sio" where
  "SwapInner N ref st = do {
     o1 \<leftarrow> obs (\<lambda>w. objs w ref);
     case o1 of
       None \<Rightarrow> State_Monad.return ()
     | Some rs \<Rightarrow> do {
         upd (\<lambda>w. w\<lparr>objs := (objs w)(ref \<mapsto> rs\<lparr>rs_inner := st, rs_resumeReady := Some (next_ch w)\<rparr>),
                next_ch := next_ch w + 1\<rparr>);
         upd (close_ready (rs_resumeReady rs));
         CancelRead_io N (rs_inner rs)
       }
   }"

definition forgetStream :: "uint64 \<Rightarrow> ('e, 's, unit) sio" where
  "forgetStream i = do {
     r \<leftarrow> get (\<lambda>s. ss_streams s i);
     put_sess (\<lambda>s. s\<lparr>ss_streams := (ss_streams s)(i := None)\<rparr>);
     case r of None \<Rightarrow> State_Monad.return () | Some ref \<Rightarrow> mark_abandoned ref
   }"

text \<open>\<open>ResumableStream.Close\<close>; the owner of a wrapper made by \<open>wrapStream\<close> is the session.\<close>

definition Close_stream :: "'e netlib \<Rightarrow> nat \<Rightarrow> ('e, 's, go_error option) sio" where
  "Close_stream N ref = do {
     o1 \<leftarrow> obs (\<lambda>w. objs w ref);
     case o1 of
       None \<Rightarrow> State_Monad.return (Some (Panic ''nil stream''))
     | Some rs \<Rightarrow> do {
         forgetStream (rs_ID rs);
         mark_abandoned ref;
         st \<leftarrow> obs (\<lambda>w. case objs w ref of None \<Rightarrow> rs_inner rs | Some rs' \<Rightarrow> rs_inner rs');
         Close_io N st
       }
   }"

text \<open>
  \<open>CloseWrite\<close> half-closes an inner stream that supports it and closes any other;
  \<open>half\<close> says which streams do.
\<close>

definition CloseWrite_stream :: "'e netlib \<Rightarrow> (stream \<Rightarrow> bool) \<Rightarrow> nat \<Rightarrow> ('e, 's, go_error option) sio" where
  "CloseWrite_stream N half ref = do {
     o1 \<leftarrow> obs (\<lambda>w. objs w ref);
     case o1 of
       None \<Rightarrow> State_Monad.return (Some (Panic ''nil stream''))
     | Some rs \<Rightarrow> if half (rs_inner rs) then CloseWrite_io N (rs_inner rs) else Close_io N (rs_inner rs)
   }"

section \<open>Waiters for the stream mode\<close>

definition RegisterStreamModeWaiter :: "uint64 \<Rightarrow> ('e, 's, nat) sio" where
  "RegisterStreamModeWaiter i = do {
     ch \<leftarrow> obs next_buf;
     upd (\<lambda>w. w\<lparr>mode_buf := (mode_buf w)(ch := None), next_buf := ch + 1\<rparr>);
     put_sess (\<lambda>s. s\<lparr>ss_pendingMode := Some ((case ss_pendingMode s of None \<Rightarrow> Map.empty | Some m \<Rightarrow> m)(i \<mapsto> ch))\<rparr>);
     State_Monad.return ch
   }"

definition CancelStreamModeWaiter :: "uint64 \<Rightarrow> ('e, 's, unit) sio" where
  "CancelStreamModeWaiter i =
     put_sess (\<lambda>s. s\<lparr>ss_pendingMode := map_option (\<lambda>m. m(i := None)) (ss_pendingMode s)\<rparr>)"

definition waiter :: "(uint64 \<rightharpoonup> nat) option \<Rightarrow> uint64 \<Rightarrow> nat option" where
  "waiter m i = (case m of None \<Rightarrow> None | Some f \<Rightarrow> f i)"

definition deliverMode :: "uint64 \<Rightarrow> alloc_granted option \<Rightarrow> ('e, 's, unit) sio" where
  "deliverMode i n = do {
     r \<leftarrow> get (\<lambda>s. waiter (ss_pendingMode s) i);
     case r of
       None \<Rightarrow> State_Monad.return ()
     | Some ch \<Rightarrow> upd (\<lambda>w. if mode_buf w ch = None then w\<lparr>mode_buf := (mode_buf w)(ch := Some n)\<rparr> else w)
   }"

text \<open>
  The wait itself: a notice already delivered is received; otherwise \<open>late\<close> is the
  one that arrives before the context fires, if any.
\<close>

definition WaitForStreamMode ::
  "alloc_granted option option \<Rightarrow> uint64 \<Rightarrow> ('e, 's, alloc_granted option) sio" where
  "WaitForStreamMode late i = do {
     r \<leftarrow> get (\<lambda>s. waiter (ss_pendingMode s) i);
     case r of
       None \<Rightarrow> State_Monad.return None
     | Some ch \<Rightarrow> do {
         b \<leftarrow> obs (\<lambda>w. mode_buf w ch);
         upd (\<lambda>w. w\<lparr>mode_buf := (mode_buf w)(ch := None)\<rparr>);
         CancelStreamModeWaiter i;
         State_Monad.return (case (case b of Some n \<Rightarrow> Some n | None \<Rightarrow> late) of
            Some g \<Rightarrow> g | None \<Rightarrow> None)
       }
   }"

section \<open>Opening a stream\<close>

definition Dial_stream ::
  "'e netlib \<Rightarrow> 's resume_lib \<Rightarrow> (nat \<Rightarrow> uint64) \<Rightarrow> string \<Rightarrow> string \<Rightarrow> ('e, 's, (go_error + nat) option) sio" where
  "Dial_stream N R ids target meth = do {
     c \<leftarrow> get ss_conn;
     o1 \<leftarrow> OpenStream_io N c;
     case o1 of
       Inl e \<Rightarrow> State_Monad.return (Some (Inl e))
     | Inr st \<Rightarrow> do {
         active \<leftarrow> get ss_streams;
         k \<leftarrow> obs id_pos;
         case freshStreamID ids active k of
           None \<Rightarrow> State_Monad.return None
         | Some (i, k') \<Rightarrow> do {
             upd (\<lambda>w. w\<lparr>id_pos := k'\<rparr>);
             ena \<leftarrow> get ss_p2pEnabled;
             (if ena then do { _ \<leftarrow> RegisterStreamModeWaiter i; State_Monad.return () }
              else State_Monad.return ());
             wr \<leftarrow> WriteFrame_io N st FtOpenStream (MOpenStream target meth i);
             case wr of
               Some e \<Rightarrow> do {
                 (if ena then CancelStreamModeWaiter i else State_Monad.return ());
                 _ \<leftarrow> Close_io N st;
                 State_Monad.return (Some (Inl (Wrapf ''session: send OPEN_STREAM'' e)))
               }
             | None \<Rightarrow> do { ref \<leftarrow> wrapStream R i st; State_Monad.return (Some (Inr ref)) }
           }
       }
   }"

section \<open>Resume\<close>

definition resume_frame :: "'s resume_lib \<Rightarrow> 's rstream \<Rightarrow> orp_msg" where
  "resume_frame R rs = (case rl_ResumePayload R (rs_state rs) of (myPos, peerAck) \<Rightarrow>
     MStreamResume \<lparr>sr_StreamId = rs_ID rs, sr_MyPosition = myPos, sr_PeerAckPosition = peerAck\<rparr>)"

definition completeResume ::
  "'e netlib \<Rightarrow> orp_lib \<Rightarrow> 's resume_lib \<Rightarrow> nat \<Rightarrow> stream \<Rightarrow> ('e, 's, go_error option) sio" where
  "completeResume N L R ref st = do {
     p \<leftarrow> ParseFrame_io N st;
     case p of
       Inl e \<Rightarrow> State_Monad.return (Some (Wrapf ''session: read peer STREAM_RESUME'' e))
     | Inr f \<Rightarrow> (case um_StreamResume L f of
         Inl e \<Rightarrow> State_Monad.return (Some e)
       | Inr peer \<Rightarrow> do {
           o1 \<leftarrow> obs (\<lambda>w. objs w ref);
           case o1 of
             None \<Rightarrow> State_Monad.return (Some (Panic ''nil stream''))
           | Some rs \<Rightarrow>
               if sr_StreamId peer \<noteq> rs_ID rs then
                 State_Monad.return (Some (ErrorNew ''session: peer STREAM_RESUME stream_id mismatch''))
               else (case rl_RetransmitFrom R (sr_PeerAckPosition peer) (rs_state rs) of
                   Inl e \<Rightarrow> State_Monad.return (Some (Wrapf ''session: retransmit gap unavailable'' e))
                 | Inr gap \<Rightarrow>
                     if gap = [] then State_Monad.return None
                     else do {
                       w \<leftarrow> Write_io N st gap;
                       State_Monad.return (map_option (Wrapf ''session: retransmit write'') (snd w))
                     })
         })
   }"

definition Resume :: "'e netlib \<Rightarrow> orp_lib \<Rightarrow> 's resume_lib \<Rightarrow> nat \<Rightarrow> ('e, 's, go_error option) sio" where
  "Resume N L R ref = do {
     c \<leftarrow> get ss_conn;
     o1 \<leftarrow> OpenStream_io N c;
     case o1 of
       Inl e \<Rightarrow> State_Monad.return (Some (Wrapf ''session: open resume stream'' e))
     | Inr st \<Rightarrow> do {
         r \<leftarrow> obs (\<lambda>w. objs w ref);
         case r of
           None \<Rightarrow> State_Monad.return (Some (Panic ''nil stream''))
         | Some rs \<Rightarrow> do {
             wr \<leftarrow> WriteFrame_io N st FtStreamResume (resume_frame R rs);
             case wr of
               Some e \<Rightarrow> do { _ \<leftarrow> Close_io N st; State_Monad.return (Some (Wrapf ''session: send STREAM_RESUME'' e)) }
             | None \<Rightarrow> do {
                 e \<leftarrow> completeResume N L R ref st;
                 case e of
                   Some err \<Rightarrow> do { _ \<leftarrow> Close_io N st; State_Monad.return (Some err) }
                 | None \<Rightarrow> do { SwapInner N ref st; State_Monad.return None }
               }
           }
       }
   }"

definition SwapConn :: "conn \<Rightarrow> ('e, 's, unit) sio" where
  "SwapConn c = put_sess (\<lambda>s. s\<lparr>ss_conn := c\<rparr>)"

section \<open>Reconnect\<close>

fun reconnect_dial ::
  "'e netlib \<Rightarrow> orp_lib \<Rightarrow> dialer \<Rightarrow> string \<Rightarrow> string list \<Rightarrow> go_error option \<Rightarrow>
     ('e, 'm, go_error option + conn \<times> stream) io" where
  "reconnect_dial N L d uri [] de = State_Monad.return (Inl de)"
| "reconnect_dial N L d uri (addr # addrs) de = do {
     r \<leftarrow> Dial_io N d addr;
     case r of
       Inl e \<Rightarrow> reconnect_dial N L d uri addrs (first_err de e)
     | Inr c \<Rightarrow> do {
         let skip = do { _ \<leftarrow> ConnClose_io N c; reconnect_dial N L d uri addrs de };
         o1 \<leftarrow> OpenStream_io N c;
         case o1 of
           Inl _ \<Rightarrow> skip
         | Inr ct \<Rightarrow> do {
             h \<leftarrow> WriteFrame_io N ct FtHello (MHello ''orp/1'' uri);
             case h of
               Some _ \<Rightarrow> skip
             | None \<Rightarrow> do {
                 p \<leftarrow> ParseFrame_io N ct;
                 case p of
                   Inl _ \<Rightarrow> skip
                 | Inr f \<Rightarrow> if um_HelloAck L f \<noteq> None then skip
                     else State_Monad.return (Inr (c, ct))
               }
           }
       }
   }"

fun reregister :: "'e netlib \<Rightarrow> stream \<Rightarrow> string list \<Rightarrow> ('e, 'm, go_error option) io" where
  "reregister N ctrl [] = State_Monad.return None"
| "reregister N ctrl (name # names) = do {
     w \<leftarrow> WriteFrame_io N ctrl FtRegister (MRegister name []);
     case w of
       Some e \<Rightarrow> State_Monad.return (Some (Wrapf ''session: re-register'' e))
     | None \<Rightarrow> do {
         p \<leftarrow> ParseFrame_io N ctrl;
         case p of
           Inl e \<Rightarrow> State_Monad.return (Some (Wrapf ''session: read REGISTER_ACK'' e))
         | Inr f \<Rightarrow>
             if f_Type f \<noteq> FtRegisterAck then State_Monad.return (Some (ErrorNew ''session: expected REGISTER_ACK''))
             else reregister N ctrl names
       }
   }"

fun resume_all :: "'e netlib \<Rightarrow> orp_lib \<Rightarrow> 's resume_lib \<Rightarrow> nat list \<Rightarrow> ('e, 's, unit) sio" where
  "resume_all N L R [] = State_Monad.return ()"
| "resume_all N L R (ref # refs) = do {
     e \<leftarrow> Resume N L R ref;
     i \<leftarrow> obs (\<lambda>w. map_option rs_ID (objs w ref));
     (case (e, i) of (Some _, Some i') \<Rightarrow> forgetStream i' | _ \<Rightarrow> State_Monad.return ());
     resume_all N L R refs
   }"

text \<open>\<open>ActiveStreams\<close>, in the iteration order \<open>sids\<close>.\<close>

definition ActiveStreams :: "uint64 list \<Rightarrow> session \<Rightarrow> nat list" where
  "ActiveStreams sids s = List.map_filter (ss_streams s) sids"

definition Reconnect ::
  "'e netlib \<Rightarrow> orp_lib \<Rightarrow> 's resume_lib \<Rightarrow> string list \<Rightarrow> string list \<Rightarrow> uint64 list \<Rightarrow>
     ('e, 's, go_error option) sio" where
  "Reconnect N L R addrs names sids =
     (if addrs = [] then State_Monad.return (Some (ErrorNew ''session: Reconnect requires at least one addr''))
      else do {
        old \<leftarrow> get ss_conn;
        _ \<leftarrow> ConnClose_io N old;
        d \<leftarrow> get (\<lambda>s. case ss_dialer s of Some d \<Rightarrow> d | None \<Rightarrow> DefaultDialer);
        uri \<leftarrow> get ss_agentURI;
        r \<leftarrow> reconnect_dial N L d uri addrs None;
        case r of
          Inl de \<Rightarrow> State_Monad.return (Some (case de of Some e \<Rightarrow> e
              | None \<Rightarrow> ErrorNew ''session: all relay endpoints failed''))
        | Inr (c, ct) \<Rightarrow> do {
            put_sess (\<lambda>s. s\<lparr>ss_conn := c, ss_ctrl := ct\<rparr>);
            e \<leftarrow> reregister N ct names;
            case e of
              Some err \<Rightarrow> State_Monad.return (Some err)
            | None \<Rightarrow> do {
                refs \<leftarrow> get (ActiveStreams sids);
                resume_all N L R refs;
                State_Monad.return None
              }
          }
      })"

section \<open>The accept loop and the reconnect loop\<close>

text \<open>
  \<open>Run\<close> over the results of \<open>AcceptStream\<close>: \<open>None\<close> while it still accepts.
\<close>

fun Run_session :: "(go_error + stream) list \<Rightarrow> ('e, 'm, go_error option option) io" where
  "Run_session [] = State_Monad.return None"
| "Run_session (Inl e # rs) = State_Monad.return
     (Some (if errors_Is e Canceled then None else Some (Wrapf ''session: accept'' e)))"
| "Run_session (Inr st # rs) = do { emit (EvGo (GoHandleIncoming st)); Run_session rs }"

definition restartControlReaderIfEnabled :: "('e, 's, unit) sio" where
  "restartControlReaderIfEnabled = do {
     en \<leftarrow> get ss_p2pEnabled;
     ctx \<leftarrow> get ss_p2pCtx;
     (if \<not> en \<or> \<not> ctx then State_Monad.return () else emit (EvGo GoControlReader))
   }"

definition maxBackoff :: nat where
  "maxBackoff = 30000000000"

definition next_backoff :: "nat \<Rightarrow> nat" where
  "next_backoff b = (if b < maxBackoff then (if b * 2 > maxBackoff then maxBackoff else b * 2) else b)"

text \<open>
  One attempt is described by the iteration orders of its \<open>Reconnect\<close> and by whether
  the context fires while it waits for the next one.
\<close>

record attempt =
  at_names :: "string list"
  at_sids :: "uint64 list"
  at_ctxDone :: bool

fun reconnect_loop ::
  "'e netlib \<Rightarrow> orp_lib \<Rightarrow> 's resume_lib \<Rightarrow> string list \<Rightarrow> nat \<Rightarrow> attempt list \<Rightarrow>
     ('e, 's, bool option) sio" where
  "reconnect_loop N L R addrs backoff [] = State_Monad.return None"
| "reconnect_loop N L R addrs backoff (a # as) = do {
     e \<leftarrow> Reconnect N L R addrs (at_names a) (at_sids a);
     case e of
       None \<Rightarrow> do { restartControlReaderIfEnabled; State_Monad.return (Some True) }
     | Some _ \<Rightarrow>
         if at_ctxDone a then State_Monad.return (Some False)
         else do { emit (EvSleep backoff); reconnect_loop N L R addrs (next_backoff backoff) as }
   }"

fun RunWithReconnect ::
  "'e netlib \<Rightarrow> orp_lib \<Rightarrow> 's resume_lib \<Rightarrow> string list \<Rightarrow> ((go_error + stream) list \<times> attempt list) list \<Rightarrow>
     ('e, 's, go_error option option) sio" where
  "RunWithReconnect N L R addrs [] = State_Monad.return None"
| "RunWithReconnect N L R addrs ((accepts, attempts) # rounds) = do {
     r \<leftarrow> Run_session accepts;
     case r of
       None \<Rightarrow> State_Monad.return None
     | Some None \<Rightarrow> State_Monad.return (Some None)
     | Some (Some e) \<Rightarrow>
         if errors_Is e Canceled then State_Monad.return (Some None)
         else do {
           put_sess (\<lambda>s. s\<lparr>ss_reconnecting := True\<rparr>);
           b \<leftarrow> reconnect_loop N L R addrs 1000000000 attempts;
           case b of
             None \<Rightarrow> State_Monad.return None
           | Some ok \<Rightarrow> do {
               put_sess (\<lambda>s. s\<lparr>ss_reconnecting := False\<rparr>);
               (if ok then RunWithReconnect N L R addrs rounds else State_Monad.return (Some None))
             }
         }
   }"

end
