(* ===== verification/Streams.thy ===== *)
theory Streams
  imports Session
begin

text \<open>
  The table of active streams: its invariant and that every operation on it keeps
  it, the fresh identifiers, and what \<open>Resume\<close> and \<open>Reconnect\<close> do to the wrappers.
\<close>

section \<open>Actions that keep a predicate\<close>

named_theorems keeps \<open>rules for actions that preserve an invariant\<close>

definition preserves :: "('w \<Rightarrow> bool) \<Rightarrow> ('w, 'a) state \<Rightarrow> bool" where
  "preserves P m \<longleftrightarrow> (\<forall>w. P w \<longrightarrow> P (snd (run_state m w)))"

lemma preservesI: "(\<And>w. P w \<Longrightarrow> P (snd (run_state m w))) \<Longrightarrow> preserves P m"
  by (simp add: preserves_def)

lemma preservesD: "preserves P m \<Longrightarrow> P w \<Longrightarrow> run_state m w = (a, w') \<Longrightarrow> P w'"
  by (metis preserves_def snd_conv)

lemma preserves_bind [keeps]:
  "preserves P m \<Longrightarrow> (\<And>a. preserves P (f a)) \<Longrightarrow> preserves P (State_Monad.bind m f)"
  by (auto simp: preserves_def run_simps split: prod.split)

lemma preserves_return [keeps]: "preserves P (State_Monad.return a)"
  by (simp add: preserves_def run_simps)

lemma preserves_cases [keeps]:
  "preserves P m \<Longrightarrow> (\<And>a. preserves P (f a)) \<Longrightarrow> preserves P (case x of None \<Rightarrow> m | Some a \<Rightarrow> f a)"
  "(\<And>a. preserves P (g a)) \<Longrightarrow> (\<And>b. preserves P (h b)) \<Longrightarrow> preserves P (case y of Inl a \<Rightarrow> g a | Inr b \<Rightarrow> h b)"
  "(\<And>a b. preserves P (k a b)) \<Longrightarrow> preserves P (case z of (a, b) \<Rightarrow> k a b)"
  "preserves P m1 \<Longrightarrow> preserves P m2 \<Longrightarrow> preserves P (if b then m1 else m2)"
  by (auto split: option.split sum.split prod.split)

lemma preserves_observe [keeps]: "preserves P (get f)" "preserves P (obs g)"
  by (simp_all add: preserves_def run_simps)

text \<open>The waits recorded in a trace.\<close>

fun sleeps :: "event list \<Rightarrow> nat list" where
  "sleeps [] = []"
| "sleeps (EvSleep n # es) = n # sleeps es"
| "sleeps (_ # es) = sleeps es"

lemma sleeps_append [simp]: "sleeps (es @ fs) = sleeps es @ sleeps fs"
  by (induction es rule: sleeps.induct) auto

text \<open>A predicate that survives every call on the outside except a wait.\<close>

locale call_invariant =
  fixes P :: "('e, 's) sworld \<Rightarrow> bool"
  assumes call: "P w \<Longrightarrow> sleeps es = [] \<Longrightarrow> P (w\<lparr>env := e, trace := trace w @ es\<rparr>)"
begin

lemma keeps_act: "(\<And>a. sleeps (ev a) = []) \<Longrightarrow> preserves P (act f ev)"
  by (simp add: preserves_def run_simps call)

lemma keep_env: "w\<lparr>env := env w, trace := t\<rparr> = w\<lparr>trace := t\<rparr>"
  by (cases w) simp

lemma keeps_emit: "sleeps [ev] = [] \<Longrightarrow> preserves P (emit ev)"
proof (rule preservesI)
  fix w assume "sleeps [ev] = []" "P w"
  then show "P (snd (run_state (emit ev) w))"
    using call [where w = w and es = "[ev]" and e = "env w"] by (simp add: run_simps keep_env)
qed

lemma keeps_io:
  "preserves P (Dial_io N d a)" "preserves P (OpenStream_io N c)" "preserves P (ConnClose_io N c)"
  "preserves P (WriteFrame_io N st t m)" "preserves P (ParseFrame_io N st)" "preserves P (Write_io N st b)"
  "preserves P (Close_io N st)" "preserves P (CloseWrite_io N st)" "preserves P (CancelRead_io N st)"
  "preserves P (CtxErr_io N)"
  by (simp_all add: io_defs keeps_act)

lemma keeps_put_sess: "(\<And>w. P w \<Longrightarrow> P (w\<lparr>sess := f (sess w)\<rparr>)) \<Longrightarrow> preserves P (put_sess f)"
  by (simp add: preserves_def run_simps)

lemma keeps_reconnect_dial: "preserves P (reconnect_dial N L d uri addrs de)"
  by (induction addrs arbitrary: de) (auto intro!: keeps keeps_io)

lemma keeps_reregister: "preserves P (reregister N ctrl names)"
  by (induction names) (auto intro!: keeps keeps_io)

lemma keeps_Run_session: "preserves P (Run_session rs)"
  by (induction rs rule: Run_session.induct) (auto intro!: keeps keeps_emit)

lemma keeps_completeResume: "preserves P (completeResume N L R ref st)"
  unfolding completeResume_def by (intro keeps keeps_io)

lemma keeps_restart: "preserves P restartControlReaderIfEnabled"
  unfolding restartControlReaderIfEnabled_def by (intro keeps keeps_emit) simp

end

text \<open>A predicate on the session and its store that does not look at the outside world.\<close>

locale session_invariant =
  fixes P :: "('e, 's) sworld \<Rightarrow> bool"
  assumes outside: "P (w\<lparr>env := e, trace := t\<rparr>) = P w"

sublocale session_invariant \<subseteq> call_invariant P
  by unfold_locales (simp add: outside)

context session_invariant
begin

lemma keeps_any_emit: "preserves P (emit ev)"
proof (rule preservesI)
  fix w assume "P w"
  then show "P (snd (run_state (emit ev) w))"
    using outside [where w = w and e = "env w" and t = "trace w @ [ev]"] by (simp add: run_simps keep_env)
qed

end

section \<open>The invariant of the table\<close>

text \<open>
  Every entry points to a wrapper that carries the entry's identifier and is not
  abandoned, and references are fresh.
\<close>

definition streams_ok :: "('e, 's) sworld \<Rightarrow> bool" where
  "streams_ok w \<longleftrightarrow>
     (\<forall>i ref. ss_streams (sess w) i = Some ref \<longrightarrow>
        (\<exists>rs. objs w ref = Some rs \<and> rs_ID rs = i \<and> \<not> rs_abandoned rs)) \<and>
     (\<forall>ref \<in> dom (objs w). ref < next_obj w)"

lemma streams_okD:
  assumes "streams_ok w"
  shows "ss_streams (sess w) i = Some ref \<Longrightarrow> \<exists>rs. objs w ref = Some rs \<and> rs_ID rs = i \<and> \<not> rs_abandoned rs"
    and "objs w ref = Some rs \<Longrightarrow> ref < next_obj w"
  using assms unfolding streams_ok_def by blast+

lemma streams_ok_inj:
  "streams_ok w \<Longrightarrow> ss_streams (sess w) i = Some ref \<Longrightarrow> ss_streams (sess w) j = Some ref \<Longrightarrow> i = j"
  using streams_okD(1) [of w i ref] streams_okD(1) [of w j ref] by auto

interpretation tbl: session_invariant streams_ok
  by unfold_locales (simp add: streams_ok_def)

lemma close_ready_fields [simp]:
  "objs (close_ready ch w) = objs w" "sess (close_ready ch w) = sess w" "next_obj (close_ready ch w) = next_obj w"
  "trace (close_ready ch w) = trace w" "env (close_ready ch w) = env w"
  by (simp_all add: close_ready_def split: option.splits)

lemma streams_ok_same_table:
  assumes "streams_ok w" and "ss_streams (sess w') = ss_streams (sess w)" and "next_obj w' = next_obj w"
    and "objs w' = (objs w)(ref \<mapsto> rs')" and "objs w ref = Some rs"
    and "rs_ID rs' = rs_ID rs" and "rs_abandoned rs' = rs_abandoned rs"
  shows "streams_ok w'"
  using assms unfolding streams_ok_def by (auto split: if_splits) force+

lemma keeps_SwapInner: "preserves streams_ok (SwapInner N ref st)"
proof (rule preservesI)
  fix w :: "('a, 'b) sworld" assume "streams_ok w"
  then show "streams_ok (snd (run_state (SwapInner N ref st) w))"
    by (cases "objs w ref")
      (auto simp: SwapInner_def run_simps intro!: streams_ok_same_table [of w])
qed

lemma keeps_wrapStream: "preserves streams_ok (wrapStream R i st)"
proof (rule preservesI)
  fix w :: "('a, 'b) sworld" assume "streams_ok w"
  then show "streams_ok (snd (run_state (wrapStream R i st) w))"
    unfolding streams_ok_def by (auto simp: wrapStream_def run_simps less_Suc_eq)
qed

lemma mark_abandoned_ok:
  assumes "streams_ok w" and "\<And>i. ss_streams (sess w) i \<noteq> Some ref"
  shows "streams_ok (snd (run_state (mark_abandoned ref) w))"
  using assms unfolding streams_ok_def mark_abandoned_def
  by (auto simp: run_simps split: option.splits if_splits)

lemma forgetStream_run:
  assumes "streams_ok w"
  shows "streams_ok (snd (run_state (forgetStream i) w))"
    and "ss_streams (sess (snd (run_state (forgetStream i) w))) = (ss_streams (sess w))(i := None)"
    and "objs w ref = Some rs \<Longrightarrow> \<exists>rs'. objs (snd (run_state (forgetStream i) w)) ref = Some rs'
      \<and> rs_ID rs' = rs_ID rs \<and> rs_inner rs' = rs_inner rs
      \<and> (rs_abandoned rs' \<longleftrightarrow> rs_abandoned rs \<or> ss_streams (sess w) i = Some ref)"
proof -
  let ?w1 = "w\<lparr>sess := (sess w)\<lparr>ss_streams := (ss_streams (sess w))(i := None)\<rparr>\<rparr>"
  have ok1: "streams_ok ?w1" using assms by (auto simp: streams_ok_def)
  have run: "run_state (forgetStream i) w =
      (case ss_streams (sess w) i of None \<Rightarrow> ((), ?w1) | Some r \<Rightarrow> run_state (mark_abandoned r) ?w1)"
    by (simp add: forgetStream_def run_simps split: option.split)
  show "streams_ok (snd (run_state (forgetStream i) w))"
  proof (cases "ss_streams (sess w) i")
    case (Some r)
    have "ss_streams (sess ?w1) j \<noteq> Some r" for j using streams_ok_inj [OF assms Some, of j] by auto
    then show ?thesis using mark_abandoned_ok [OF ok1, of r] run Some by simp
  qed (use ok1 run in simp)
  show "ss_streams (sess (snd (run_state (forgetStream i) w))) = (ss_streams (sess w))(i := None)"
    by (auto simp: run mark_abandoned_def run_simps split: option.splits)
  show "objs w ref = Some rs \<Longrightarrow> \<exists>rs'. objs (snd (run_state (forgetStream i) w)) ref = Some rs'
      \<and> rs_ID rs' = rs_ID rs \<and> rs_inner rs' = rs_inner rs
      \<and> (rs_abandoned rs' \<longleftrightarrow> rs_abandoned rs \<or> ss_streams (sess w) i = Some ref)"
    by (auto simp: run mark_abandoned_def run_simps split: option.splits)
qed

lemma keeps_forgetStream: "preserves streams_ok (forgetStream i)"
  by (rule preservesI) (rule forgetStream_run(1))

lemma keeps_Close_stream: "preserves streams_ok (Close_stream N ref)"
proof (rule preservesI)
  fix w :: "('a, 'b) sworld" assume ok: "streams_ok w"
  show "streams_ok (snd (run_state (Close_stream N ref) w))"
  proof (cases "objs w ref")
    case None
    then show ?thesis using ok by (simp add: Close_stream_def run_simps)
  next
    case (Some rs)
    let ?w1 = "snd (run_state (forgetStream (rs_ID rs)) w)"
    let ?w2 = "snd (run_state (mark_abandoned ref) ?w1)"
    obtain rs' where "objs ?w1 ref = Some rs'" "rs_ID rs' = rs_ID rs"
      using forgetStream_run(3) [OF ok Some] by blast
    then have "ss_streams (sess ?w1) j \<noteq> Some ref" for j
      using streams_okD(1) [OF forgetStream_run(1) [OF ok], of "rs_ID rs" j ref]
        forgetStream_run(2) [OF ok, of "rs_ID rs"] by auto
    then have "streams_ok ?w2" using mark_abandoned_ok forgetStream_run(1) [OF ok] by blast
    moreover have "streams_ok (snd (run_state (Close_stream N ref) w)) = streams_ok ?w2"
      using Some by (simp add: Close_stream_def run_simps tbl.outside split: prod.split)
    ultimately show ?thesis by simp
  qed
qed

lemma keeps_sess_other:
  assumes "\<And>s. ss_streams (f s) = ss_streams s"
  shows "preserves streams_ok (put_sess f)"
  by (rule tbl.keeps_put_sess) (simp add: streams_ok_def assms)

lemma keeps_upd_other:
  assumes "\<And>w. sess (f w) = sess w" "\<And>w. objs (f w) = objs w" "\<And>w. next_obj (f w) = next_obj w"
  shows "preserves streams_ok (upd f)"
  by (simp add: preserves_def run_simps streams_ok_def assms)

lemmas stream_keeps = keeps tbl.keeps_io tbl.keeps_any_emit keeps_SwapInner keeps_wrapStream keeps_forgetStream
  keeps_Close_stream keeps_sess_other keeps_upd_other tbl.keeps_reconnect_dial tbl.keeps_reregister
  tbl.keeps_Run_session tbl.keeps_completeResume tbl.keeps_restart

lemma keeps_Register: "preserves streams_ok (RegisterStreamModeWaiter i)"
  unfolding RegisterStreamModeWaiter_def by (intro stream_keeps) simp_all

lemma keeps_Cancel: "preserves streams_ok (CancelStreamModeWaiter i)"
  unfolding CancelStreamModeWaiter_def by (intro stream_keeps) simp_all

lemma keeps_deliverMode: "preserves streams_ok (deliverMode i n)"
  unfolding deliverMode_def by (intro stream_keeps) simp_all

lemma keeps_WaitForStreamMode: "preserves streams_ok (WaitForStreamMode late i)"
  unfolding WaitForStreamMode_def by (intro stream_keeps keeps_Cancel) simp_all

lemma keeps_Expose: "preserves streams_ok (Expose N name a h)"
  unfolding Expose_def by (intro stream_keeps) simp_all

lemma keeps_Dial_stream: "preserves streams_ok (Dial_stream N R ids target meth)"
  unfolding Dial_stream_def by (intro stream_keeps keeps_Register keeps_Cancel) simp_all

lemma keeps_Resume: "preserves streams_ok (Resume N L R ref)"
  unfolding Resume_def by (intro stream_keeps)

lemma keeps_resume_all: "preserves streams_ok (resume_all N L R refs)"
  by (induction refs) (auto intro!: stream_keeps keeps_Resume split: option.split prod.split)

lemma keeps_Reconnect: "preserves streams_ok (Reconnect N L R addrs names sids)"
  unfolding Reconnect_def by (intro stream_keeps keeps_resume_all) simp_all

section \<open>Fresh identifiers\<close>

lemma freshStreamID_step:
  "active (ids k) = None \<Longrightarrow> freshStreamID ids active k = Some (ids k, k + 1)"
  "active (ids k) \<noteq> None \<Longrightarrow> freshStreamID ids active k = freshStreamID ids active (k + 1)"
  by (simp_all add: freshStreamID.simps [of ids active k])

lemma freshStreamID_first:
  assumes "active (ids (k + n)) = None" and "\<And>m. m < n \<Longrightarrow> active (ids (k + m)) \<noteq> None"
  shows "freshStreamID ids active k = Some (ids (k + n), k + n + 1)"
  using assms
proof (induction n arbitrary: k)
  case 0
  then show ?case by (simp add: freshStreamID_step)
next
  case (Suc n)
  have "active (ids k) \<noteq> None" using Suc.prems(2) [of 0] by simp
  then have "freshStreamID ids active k = freshStreamID ids active (k + 1)" by (rule freshStreamID_step(2))
  also have "\<dots> = Some (ids (k + 1 + n), k + 1 + n + 1)"
    using Suc.prems(1) Suc.prems(2) [of "Suc _"] by (intro Suc.IH) simp_all
  finally show ?case by simp
qed

text \<open>Among more distinct identifiers than there are active streams one is free.\<close>

lemma free_identifier:
  assumes "finite (dom active)" and "inj_on ids {k..k + card (dom active)}"
  shows "\<exists>n \<le> card (dom active). active (ids (k + n)) = None"
proof (rule ccontr)
  assume used: "\<not> ?thesis"
  have "ids ` {k..k + card (dom active)} \<subseteq> dom active"
  proof (intro subsetI)
    fix x assume "x \<in> ids ` {k..k + card (dom active)}"
    then obtain j where "x = ids j" "k \<le> j" "j \<le> k + card (dom active)" by auto
    then have "x = ids (k + (j - k))" "j - k \<le> card (dom active)" by auto
    then show "x \<in> dom active" using used by (metis domIff)
  qed
  then have "card {k..k + card (dom active)} \<le> card (dom active)"
    using card_mono [OF assms(1)] card_image [OF assms(2)] by metis
  then show False by simp
qed

lemma freshStreamID_found:
  assumes "finite (dom active)" and "inj_on ids {k..k + card (dom active)}"
  shows "\<exists>n \<le> card (dom active). freshStreamID ids active k = Some (ids (k + n), k + n + 1)
    \<and> active (ids (k + n)) = None"
proof -
  let ?n = "LEAST n. active (ids (k + n)) = None"
  obtain m where m: "m \<le> card (dom active)" "active (ids (k + m)) = None"
    using free_identifier [OF assms] by blast
  have "active (ids (k + ?n)) = None" using m(2) by (rule LeastI)
  moreover have "?n \<le> m" using m(2) by (rule Least_le)
  moreover have "active (ids (k + j)) \<noteq> None" if "j < ?n" for j using not_less_Least [OF that] .
  ultimately show ?thesis using freshStreamID_first [of active ids k ?n] m(1) by fastforce
qed

text \<open>
  C27. \<open>freshStreamID\<close> terminates with an unused identifier: as long as the generator
  does not repeat itself within as many draws as there are active streams, the
  loop ends after at most that many retries, and the identifier it returns does
  not belong to an active stream.
\<close>

theorem freshStreamID_terminates:
  assumes "finite (dom active)" and "inj_on ids {k..k + card (dom active)}"
  shows "\<exists>n \<le> card (dom active). freshStreamID ids active k = Some (ids (k + n), k + n + 1)
    \<and> active (ids (k + n)) = None"
  using assms by (rule freshStreamID_found)

theorem freshStreamID_terminates_witness:
  "\<exists>n \<le> 1. freshStreamID of_nat [7 \<mapsto> 0] 7 = Some (of_nat (7 + n), 7 + n + 1)"
proof -
  have "inj_on (of_nat :: nat \<Rightarrow> uint64) {7..7 + card (dom [7 :: uint64 \<mapsto> 0 :: nat])}"
    by (auto simp: inj_on_def atLeastAtMostSuc_conv le_Suc_eq numeral_eq_Suc)
  from freshStreamID_terminates [OF _ this] show ?thesis by auto
qed

section \<open>Closing a wrapper whose identifier was taken over\<close>

text \<open>
  C28. A duplicate identifier makes the stale wrapper dangerous: after \<open>wrapStream\<close>
  has replaced an entry, closing the wrapper that was replaced removes the new
  stream from the table and abandons it, so its reads and writes fail with
  \<open>ErrStreamLost\<close> although nobody closed it.
\<close>

theorem stale_close_kills_replacement:
  assumes "streams_ok w" and "objs w old = Some rs" and "rs_ID rs = i"
    and "run_state (wrapStream R i st) w = (new, w1)"
    and "run_state (Close_stream N old) w1 = (e, w2)"
  shows "ss_streams (sess w1) i = Some new \<and> ss_streams (sess w2) i = None
    \<and> (\<exists>rs'. objs w2 new = Some rs' \<and> rs_inner rs' = st \<and> rs_abandoned rs')"
proof -
  have neq: "old \<noteq> new" and w1: "ss_streams (sess w1) = (ss_streams (sess w))(i \<mapsto> new)"
      "objs w1 old = Some rs" "objs w1 new = Some \<lparr>rs_ID = i, rs_inner = st, rs_state = rl_NewState R i,
        rs_resumeReady = Some (next_ch w), rs_abandoned = False\<rparr>"
    using assms(2,4) streams_okD(2) [OF assms(1,2)] by (auto simp: wrapStream_def run_simps)
  have ok1: "streams_ok w1" using preservesD [OF keeps_wrapStream assms(1,4)] .
  let ?w = "snd (run_state (forgetStream i) w1)"
  obtain rs' where rs': "objs ?w new = Some rs'" "rs_inner rs' = st" "rs_abandoned rs'"
    using forgetStream_run(3) [OF ok1 w1(3), of i] w1(1) by auto
  have "sess w2 = sess ?w \<and> objs w2 new = objs ?w new"
    using assms(3,5) neq w1(2)
    by (auto simp: Close_stream_def mark_abandoned_def run_simps split: prod.splits option.splits if_splits)
  then show ?thesis using forgetStream_run(2) [OF ok1, of i] w1(1) rs' by auto
qed

lemma start_streams_ok: "ss_streams s = Map.empty \<Longrightarrow> streams_ok (start_sworld e s)"
  by (simp add: streams_ok_def start_sworld_def)

definition sample_session :: session where
  "sample_session = new_session 1 2 ''u'' DefaultDialer"

definition sample_world :: "(script, ring_view) sworld" where
  "sample_world = snd (run_state (wrapStream (list_ring 8) 7 3) (start_sworld idle_script sample_session))"

lemma sample_world_ok: "streams_ok sample_world"
proof -
  have "streams_ok (start_sworld idle_script sample_session :: (script, ring_view) sworld)"
    by (rule start_streams_ok) (simp add: sample_session_def new_session_def)
  then show ?thesis
    using keeps_wrapStream unfolding sample_world_def preserves_def by blast
qed

lemma sample_world_obj: "objs sample_world 0 = Some \<lparr>rs_ID = 7, rs_inner = 3,
    rs_state = \<lparr>written_bytes = [], evicted = 0, read_count = 0\<rparr>, rs_resumeReady = Some 0, rs_abandoned = False\<rparr>"
  by (simp add: sample_world_def wrapStream_def start_sworld_def run_simps list_ring_def)

theorem stale_close_kills_replacement_witness:
  "\<exists>w1 e w2 rs'. run_state (wrapStream (list_ring 8) 7 4) sample_world = (1, w1)
    \<and> run_state (Close_stream scripted 0) w1 = (e, w2)
    \<and> ss_streams (sess w1) 7 = Some 1 \<and> objs w2 1 = Some rs' \<and> rs_abandoned rs'"
proof -
  obtain w1 where w1: "run_state (wrapStream (list_ring 8) 7 4) sample_world = (1, w1)"
    by (simp add: sample_world_def wrapStream_def start_sworld_def run_simps)
  obtain e w2 where w2: "run_state (Close_stream scripted 0) w1 = (e, w2)" by fastforce
  from stale_close_kills_replacement [OF sample_world_ok sample_world_obj _ w1 w2] w1 w2
  show ?thesis by auto
qed

end
