(* ===== verification/SessionDial.thy ===== *)
theory SessionDial
  imports Session "HOL-Library.Multiset"
begin

text \<open>
  Bring-up of a session: which connections an attempt leaves open, which relay wins,
  which error is reported.
\<close>

section \<open>Connections opened and closed in a trace\<close>

fun dialed :: "event list \<Rightarrow> conn list" where
  "dialed [] = []"
| "dialed (EvDial d a (Some c) # es) = c # dialed es"
| "dialed (_ # es) = dialed es"

fun conns_closed :: "event list \<Rightarrow> conn list" where
  "conns_closed [] = []"
| "conns_closed (EvConnClose c # es) = c # conns_closed es"
| "conns_closed (_ # es) = conns_closed es"

lemma dialed_append [simp]: "dialed (es @ fs) = dialed es @ dialed fs"
  by (induction es rule: dialed.induct) auto

lemma conns_closed_append [simp]: "conns_closed (es @ fs) = conns_closed es @ conns_closed fs"
  by (induction es rule: conns_closed.induct) auto

text \<open>The connection a result holds.\<close>

definition held :: "go_error + session \<Rightarrow> conn list" where
  "held r = (case r of Inl _ \<Rightarrow> [] | Inr s \<Rightarrow> [ss_conn s])"

text \<open>An action that leaves exactly the connections of its result open.\<close>

definition no_leak :: "('e, 'm) world_scheme \<Rightarrow> ('e, 'm) world_scheme \<Rightarrow> conn list \<Rightarrow> bool" where
  "no_leak w w' keep \<longleftrightarrow> (\<exists>es. trace w' = trace w @ es \<and>
     mset (dialed es) = mset (conns_closed es) + mset keep)"

lemma no_leakI: "trace w' = trace w @ es \<Longrightarrow> mset (dialed es) = mset (conns_closed es) + mset keep \<Longrightarrow> no_leak w w' keep"
  by (auto simp: no_leak_def)

lemma no_leak_refl [simp]: "no_leak w w []"
  by (rule no_leakI [of _ _ "[]"]) simp_all

lemma no_leak_trans:
  assumes "no_leak w w1 k1" and "no_leak w1 w2 k2"
  shows "no_leak w w2 (k1 @ k2)"
proof -
  obtain es where es: "trace w1 = trace w @ es" "mset (dialed es) = mset (conns_closed es) + mset k1"
    using assms(1) by (auto simp: no_leak_def)
  obtain fs where fs: "trace w2 = trace w1 @ fs" "mset (dialed fs) = mset (conns_closed fs) + mset k2"
    using assms(2) by (auto simp: no_leak_def)
  show ?thesis by (rule no_leakI [of _ _ "es @ fs"]) (simp_all add: es fs)
qed

lemma no_leak_close:
  "no_leak w w1 (c # k) \<Longrightarrow> trace w2 = trace w1 @ [EvConnClose c] \<Longrightarrow> no_leak w w2 k"
  by (auto simp: no_leak_def)

lemma DialWithDialer_no_leak:
  assumes "run_state (DialWithDialer N L d addr uri) w = (r, w')"
  shows "no_leak w w' (held r)"
  using assms unfolding DialWithDialer_def
  by (auto simp: run_simps no_leak_def held_def new_session_def
      split: sum.splits option.splits if_splits)

lemma DialWithDialer_session:
  assumes "run_state (DialWithDialer N L d addr uri) w = (Inr s, w')"
  shows "s = new_session (ss_conn s) (ss_ctrl s) uri d
    \<and> EvDial d addr (Some (ss_conn s)) \<in> set (trace w')
    \<and> EvWriteFrame (ss_ctrl s) FtHello (MHello ''orp/1'' uri) True \<in> set (trace w')"
  using assms unfolding DialWithDialer_def
  by (auto simp: run_simps new_session_def split: sum.splits option.splits if_splits)

lemma happy_loop_no_leak:
  assumes "run_state (happy_loop N L d uri addrs winner fe) w = ((winner', fe'), w')"
  shows "\<exists>k. no_leak w w' k \<and> map ss_conn (case winner of None \<Rightarrow> [] | Some s \<Rightarrow> [s]) @ k
    = map ss_conn (case winner' of None \<Rightarrow> [] | Some s \<Rightarrow> [s])"
  using assms
proof (induction addrs arbitrary: w winner fe)
  case Nil
  then show ?case by (auto simp: run_simps)
next
  case (Cons a addrs)
  obtain r w1 where dial: "run_state (DialWithDialer N L d a uri) w = (r, w1)" by fastforce
  note leak = DialWithDialer_no_leak [OF dial]
  show ?case
  proof (cases r)
    case (Inl e)
    then have "run_state (happy_loop N L d uri addrs winner (first_err fe e)) w1 = ((winner', fe'), w')"
      using Cons.prems dial by (simp add: run_simps)
    from Cons.IH [OF this] show ?thesis using leak Inl no_leak_trans by (fastforce simp: held_def)
  next
    case (Inr s)
    show ?thesis
    proof (cases winner)
      case None
      then have "run_state (happy_loop N L d uri addrs (Some s) fe) w1 = ((winner', fe'), w')"
        using Cons.prems dial Inr by (simp add: run_simps)
      from Cons.IH [OF this] obtain k where k: "no_leak w1 w' k"
          "ss_conn s # k = map ss_conn (case winner' of None \<Rightarrow> [] | Some s \<Rightarrow> [s])" by auto
      have "no_leak w w' (ss_conn s # k)"
        using no_leak_trans [OF leak k(1)] Inr by (simp add: held_def)
      then show ?thesis using k(2) None by auto
    next
      case (Some s0)
      obtain u w2 where cl: "run_state (Close_session N s) w1 = (u, w2)" by fastforce
      then have "trace w2 = trace w1 @ [EvConnClose (ss_conn s)]"
        by (auto simp: Close_session_def run_simps)
      then have "no_leak w w2 []" using no_leak_close leak Inr by (auto simp: held_def)
      moreover have "run_state (happy_loop N L d uri addrs winner fe) w2 = ((winner', fe'), w')"
        using Cons.prems dial Inr Some cl by (simp add: run_simps)
      ultimately show ?thesis
        using Cons.IH no_leak_trans by (metis (no_types, lifting) append_Nil)
    qed
  qed
qed

lemma DialAnyHappy_no_leak:
  assumes "run_state (DialAnyHappy N L d addrs arrivals uri) w = (r, w')"
  shows "no_leak w w' (held r)"
proof -
  consider "addrs = []" | "length addrs = 1" | "addrs \<noteq> []" "length addrs \<noteq> 1" by blast
  then show ?thesis
  proof cases
    case 1
    then show ?thesis using assms by (auto simp: DialAnyHappy_def run_simps held_def)
  next
    case 2
    then have "run_state (DialWithDialer N L d (hd addrs) uri) w = (r, w')"
      using assms by (cases addrs) (auto simp: DialAnyHappy_def)
    then show ?thesis by (rule DialWithDialer_no_leak)
  next
    case 3
    obtain wi fe w1 where loop: "run_state (happy_loop N L d uri arrivals None None) w = ((wi, fe), w1)"
      by (metis surj_pair)
    then have "w' = w1" "r = (case wi of Some s \<Rightarrow> Inr s | None \<Rightarrow> all_failed fe)"
      using assms 3 by (auto simp: DialAnyHappy_def run_simps split: option.split)
    then show ?thesis
      using happy_loop_no_leak [OF loop] by (auto simp: held_def all_failed_def split: option.splits)
  qed
qed

section \<open>Which relay, which error\<close>

text \<open>
  \<open>attempts\<close> runs one \<open>Dial\<close> per address; \<open>DialAny\<close> is the first success among them.
\<close>

fun attempts :: "'e netlib \<Rightarrow> orp_lib \<Rightarrow> string \<Rightarrow> string list \<Rightarrow> ('e, 'm, (go_error + session) list) io" where
  "attempts N L uri [] = State_Monad.return []"
| "attempts N L uri (a # as) = do {
     r \<leftarrow> Dial_session N L a uri;
     case r of
       Inr s \<Rightarrow> State_Monad.return [Inr s]
     | Inl e \<Rightarrow> do { rs \<leftarrow> attempts N L uri as; State_Monad.return (Inl e # rs) }
   }"

definition verdict :: "go_error option \<Rightarrow> (go_error + session) list \<Rightarrow> go_error + session" where
  "verdict fe rs = (case find is_Inr rs of
       Some r \<Rightarrow> r
     | None \<Rightarrow> all_failed (case fe of Some e \<Rightarrow> Some e
         | None \<Rightarrow> (case rs of [] \<Rightarrow> None | r # _ \<Rightarrow> (case r of Inl e \<Rightarrow> Some e | Inr _ \<Rightarrow> None))))"

lemma dial_any_loop_verdict:
  "run_state (dial_any_loop N L uri addrs fe) w =
     (case run_state (attempts N L uri addrs) w of (rs, w') \<Rightarrow> (verdict fe rs, w'))"
proof (induction addrs arbitrary: w fe)
  case Nil
  then show ?case by (simp add: run_simps verdict_def split: option.split)
next
  case (Cons a addrs)
  obtain r w1 where dial: "run_state (Dial_session N L a uri) w = (r, w1)" by fastforce
  show ?case
  proof (cases r)
    case (Inr s)
    then show ?thesis using dial by (simp add: run_simps verdict_def)
  next
    case (Inl e)
    have v: "verdict (first_err fe e) rs = verdict fe (Inl e # rs)" for rs
      by (simp add: verdict_def first_err_def split: option.split)
    show ?thesis
      using dial Inl Cons.IH [of "first_err fe e" w1]
      by (simp add: run_simps v split: prod.split)
  qed
qed

section \<open>Properties\<close>

text \<open>
  C26. No connection leaks during bring-up: whatever the relays and the network do
  and in whatever order the concurrent attempts complete, every connection that was
  dialed is closed again, except the one of the session that is returned.
\<close>

theorem DialAnyHappy_closes_losers:
  assumes "run_state (DialAnyHappy N L d addrs arrivals uri) \<lparr>env = e, trace = []\<rparr> = (r, w')"
  shows "mset (dialed (trace w')) =
    mset (conns_closed (trace w')) + mset (case r of Inl _ \<Rightarrow> [] | Inr s \<Rightarrow> [ss_conn s])"
  using DialAnyHappy_no_leak [OF assms] by (auto simp: no_leak_def held_def)

definition two_relays :: script where
  "two_relays = idle_script\<lparr>sc_dials := [Inr 10, Inr 11], sc_opens := [Inr 20, Inr 21],
     sc_frames := [frame_of FtHelloAck [], frame_of FtHelloAck []]\<rparr>"

lemma happy_run:
  "run_state (DialAnyHappy scripted scripted_orp DefaultDialer [''a'', ''b''] [''b'', ''a''] ''u'')
     \<lparr>env = two_relays, trace = []\<rparr> =
   (Inr (new_session 10 20 ''u'' DefaultDialer),
    snd (run_state (DialAnyHappy scripted scripted_orp DefaultDialer [''a'', ''b''] [''b'', ''a''] ''u'')
     \<lparr>env = two_relays, trace = []\<rparr>))"
  by (simp add: DialAnyHappy_def DialWithDialer_def Close_session_def run_simps script_defs two_relays_def)

theorem DialAnyHappy_closes_losers_witness:
  "\<exists>w'. run_state (DialAnyHappy scripted scripted_orp DefaultDialer [''a'', ''b''] [''b'', ''a''] ''u'')
      \<lparr>env = two_relays, trace = []\<rparr> = (Inr (new_session 10 20 ''u'' DefaultDialer), w')
    \<and> mset (dialed (trace w')) = mset (conns_closed (trace w')) + mset [10]"
  using happy_run DialAnyHappy_closes_losers [OF happy_run] by (auto simp: new_session_def)

text \<open>
  \<open>DialAny\<close> tries the addresses in order and stops at the first success: its
  result is the first session among the attempts, and when all fail it wraps the
  error of the first attempt.
\<close>

theorem DialAny_first_success:
  "run_state (DialAny N L addrs uri) w =
    (if addrs = [] then (Inl (ErrorNew ''session: no relay addresses''), w)
     else (case run_state (attempts N L uri addrs) w of (rs, w') \<Rightarrow>
       (case find is_Inr rs of
          Some r \<Rightarrow> r
        | None \<Rightarrow> all_failed (case rs of [] \<Rightarrow> None | r # _ \<Rightarrow> (case r of Inl e \<Rightarrow> Some e | Inr _ \<Rightarrow> None)),
        w')))"
  by (simp add: DialAny_def dial_any_loop_verdict run_simps verdict_def split: prod.split option.split)

end
