(* ===== verification/Resuming.thy ===== *)
theory Resuming
  imports Streams SessionDial
begin

text \<open>
  \<open>Resume\<close>, \<open>Reconnect\<close> and \<open>RunWithReconnect\<close>: what is retransmitted, what happens to
  each active stream, and how the reconnect loop waits and ends.
\<close>

section \<open>One stream\<close>

fun writes_on :: "stream \<Rightarrow> event list \<Rightarrow> byte list" where
  "writes_on st [] = []"
| "writes_on st (EvWrite st' p # es) = (if st' = st then p else []) @ writes_on st es"
| "writes_on st (_ # es) = writes_on st es"

lemma writes_on_append [simp]: "writes_on st (es @ fs) = writes_on st es @ writes_on st fs"
  by (induction st es rule: writes_on.induct) auto

lemma writes_on_simps [simp]:
  "writes_on st [EvWrite st' p] = (if st' = st then p else [])" by simp

text \<open>The events of a successful \<open>Resume\<close>.\<close>

definition resume_events :: "'s resume_lib \<Rightarrow> conn \<Rightarrow> 's rstream \<Rightarrow> stream \<Rightarrow> byte list \<Rightarrow> event list" where
  "resume_events R c rs st gap = [EvOpen c (Some st), EvWriteFrame st FtStreamResume (resume_frame R rs) True,
     EvParse st True] @ (if gap = [] then [] else [EvWrite st gap]) @ [EvCancelRead (rs_inner rs)]"

lemma Resume_ok:
  assumes "run_state (Resume N L R ref) w = (None, w')" and "objs w ref = Some rs"
  shows "\<exists>st f peer gap. um_StreamResume L f = Inr peer \<and> sr_StreamId peer = rs_ID rs
    \<and> rl_RetransmitFrom R (sr_PeerAckPosition peer) (rs_state rs) = Inr gap
    \<and> trace w' = trace w @ resume_events R (ss_conn (sess w)) rs st gap
    \<and> objs w' = (objs w)(ref \<mapsto> rs\<lparr>rs_inner := st, rs_resumeReady := Some (next_ch w)\<rparr>)
    \<and> sess w' = sess w"
  using assms
  by (auto simp: Resume_def completeResume_def SwapInner_def run_simps resume_events_def
      split: sum.splits option.splits if_splits) blast+

lemma Resume_err:
  assumes "run_state (Resume N L R ref) w = (Some e, w')" and "objs w ref = Some rs"
  shows "objs w' = objs w \<and> sess w' = sess w \<and> (\<exists>es. trace w' = trace w @ es \<and>
    (\<forall>st. EvOpen (ss_conn (sess w)) (Some st) \<in> set es \<longrightarrow> EvClose st \<in> set es))"
  using assms
  by (auto simp: Resume_def completeResume_def SwapInner_def run_simps
      split: sum.splits option.splits if_splits)

text \<open>What is retransmitted to a peer that reports its own position.\<close>

lemma gap_exact:
  assumes "resume_contract R view" and "MStreamResume p = resume_frame R peer"
    and "rl_RetransmitFrom R (sr_PeerAckPosition p) s = Inr gap"
    and "read_count (view (rs_state peer)) \<le> length (written_bytes (view s))"
    and "length (written_bytes (view s)) < 2 ^ 64"
  shows "gap = drop (read_count (view (rs_state peer))) (written_bytes (view s))"
proof -
  have "sr_PeerAckPosition p = of_nat (read_count (view (rs_state peer)))"
    using assms(2) resume_contractD(11,12) [OF assms(1)] by (simp add: resume_frame_def)
  then have pos: "unat (sr_PeerAckPosition p) = read_count (view (rs_state peer))"
    using assms(4,5) by (simp add: unat_of_nat_small)
  have "\<not> unat (sr_PeerAckPosition p) < evicted (view s)"
    using resume_contractD(14) [OF assms(1), of "sr_PeerAckPosition p" s] assms(3) by auto
  then show ?thesis
    using resume_contractD(13) [OF assms(1), of s "sr_PeerAckPosition p"] assms(3,4) pos by simp
qed

section \<open>Properties of Resume\<close>


text \<open>
  A failed \<open>Resume\<close> does no harm: the wrapper keeps its inner stream and its
  counters, the table is untouched, and a stream opened for the attempt is closed.
\<close>

theorem Resume_failure_clean:
  assumes "run_state (Resume N L R ref) w = (Some e, w')" and "objs w ref = Some rs"
  shows "objs w' = objs w \<and> sess w' = sess w \<and> (\<exists>new. trace w' = trace w @ new \<and>
    (\<forall>st. EvOpen (ss_conn (sess w)) (Some st) \<in> set new \<longrightarrow> EvClose st \<in> set new))"
  using assms by (rule Resume_err)

definition echo_orp :: "stream_resume \<Rightarrow> orp_lib" where
  "echo_orp p = scripted_orp\<lparr>um_StreamResume := (\<lambda>f. Inr p)\<rparr>"

definition wrote3 :: "ring_view rstream" where
  "wrote3 = \<lparr>rs_ID = 7, rs_inner = 3, rs_state = \<lparr>written_bytes = [1, 2, 3], evicted = 0, read_count = 0\<rparr>,
     rs_resumeReady = Some 0, rs_abandoned = False\<rparr>"

definition read1 :: "ring_view rstream" where
  "read1 = wrote3\<lparr>rs_state := \<lparr>written_bytes = [], evicted = 0, read_count = 1\<rparr>\<rparr>"

definition resume_world :: "(script, ring_view) sworld" where
  "resume_world = sample_world\<lparr>objs := [0 \<mapsto> wrote3],
     env := idle_script\<lparr>sc_opens := [Inr 9], sc_frames := [frame_of FtStreamResume []]\<rparr>\<rparr>"

lemma resume_world_run:
  "fst (run_state (Resume scripted (echo_orp \<lparr>sr_StreamId = 7, sr_MyPosition = 0, sr_PeerAckPosition = 1\<rparr>)
     (list_ring 8) 0) resume_world) = None"
  by (simp add: Resume_def completeResume_def SwapInner_def run_simps resume_world_def echo_orp_def script_defs
      list_ring_def wrote3_def split: option.split)


theorem Resume_failure_clean_witness:
  "\<exists>e w'. run_state (Resume scripted scripted_orp (list_ring 8) 0) sample_world = (Some e, w')
     \<and> objs w' = objs sample_world"
proof -
  obtain e w' where run: "run_state (Resume scripted scripted_orp (list_ring 8) 0) sample_world = (Some e, w')"
    by (simp add: Resume_def run_simps sample_world_def wrapStream_def start_sworld_def script_defs)
  then show ?thesis using Resume_failure_clean [OF run sample_world_obj] by blast
qed

section \<open>All streams\<close>

text \<open>
  The fate of a stream at a reconnect: it is live again on a stream opened on the
  new connection, or it is gone from the table and abandoned.
\<close>

definition carried :: "conn \<Rightarrow> uint64 \<Rightarrow> nat \<Rightarrow> ('e, 's) sworld \<Rightarrow> bool" where
  "carried c i ref w \<longleftrightarrow> ss_streams (sess w) i = Some ref \<and>
     (\<exists>rs. objs w ref = Some rs \<and> EvOpen c (Some (rs_inner rs)) \<in> set (trace w))"

definition dropped :: "uint64 \<Rightarrow> nat \<Rightarrow> ('e, 's) sworld \<Rightarrow> bool" where
  "dropped i ref w \<longleftrightarrow> ss_streams (sess w) i = None \<and> (\<exists>rs. objs w ref = Some rs \<and> rs_abandoned rs)"

lemma forgetStream_world:
  "trace (snd (run_state (forgetStream i) w)) = trace w"
  "ss_conn (sess (snd (run_state (forgetStream i) w))) = ss_conn (sess w)"
  "ss_ctrl (sess (snd (run_state (forgetStream i) w))) = ss_ctrl (sess w)"
  by (auto simp: forgetStream_def mark_abandoned_def run_simps split: option.splits)

text \<open>One iteration of the loop in \<open>Reconnect\<close>.\<close>

definition resume_one :: "'e netlib \<Rightarrow> orp_lib \<Rightarrow> 's resume_lib \<Rightarrow> nat \<Rightarrow> ('e, 's, unit) sio" where
  "resume_one N L R ref = do {
     e \<leftarrow> Resume N L R ref;
     i \<leftarrow> obs (\<lambda>w. map_option rs_ID (objs w ref));
     (case (e, i) of (Some _, Some i') \<Rightarrow> forgetStream i' | _ \<Rightarrow> State_Monad.return ())
   }"

lemma resume_all_Cons: "resume_all N L R (ref # refs) = State_Monad.bind (resume_one N L R ref) (\<lambda>_. resume_all N L R refs)"
  by (simp add: resume_one_def)

lemma resume_one_run:
  assumes ok: "streams_ok w" and tab: "ss_streams (sess w) i = Some ref"
    and w'_def: "w' = snd (run_state (resume_one N L R ref) w)"
  shows "streams_ok w'" and "ss_conn (sess w') = ss_conn (sess w) \<and> ss_ctrl (sess w') = ss_ctrl (sess w)"
    and "carried (ss_conn (sess w)) i ref w' \<or> dropped i ref w'"
    and "j \<noteq> i \<Longrightarrow> ss_streams (sess w') j = ss_streams (sess w) j"
    and "r \<noteq> ref \<Longrightarrow> objs w' r = objs w r"
    and "set (trace w) \<subseteq> set (trace w')"
proof -
  obtain rs where rs: "objs w ref = Some rs" "rs_ID rs = i" "\<not> rs_abandoned rs"
    using streams_okD(1) [OF ok tab] by blast
  obtain e w1 where run: "run_state (Resume N L R ref) w = (e, w1)" by fastforce
  have ok1: "streams_ok w1" using preservesD [OF keeps_Resume ok run] .
  have "streams_ok w' \<and> ss_conn (sess w') = ss_conn (sess w) \<and> ss_ctrl (sess w') = ss_ctrl (sess w)
      \<and> (carried (ss_conn (sess w)) i ref w' \<or> dropped i ref w')
      \<and> (\<forall>j. j \<noteq> i \<longrightarrow> ss_streams (sess w') j = ss_streams (sess w) j)
      \<and> (\<forall>r. r \<noteq> ref \<longrightarrow> objs w' r = objs w r) \<and> set (trace w) \<subseteq> set (trace w')"
  proof (cases e)
    case None
    from Resume_ok [OF run [unfolded None] rs(1)] obtain st gap where
      w1: "trace w1 = trace w @ resume_events R (ss_conn (sess w)) rs st gap"
        "objs w1 = (objs w)(ref \<mapsto> rs\<lparr>rs_inner := st, rs_resumeReady := Some (next_ch w)\<rparr>)"
        "sess w1 = sess w" by blast
    have "w' = w1" using run None by (simp add: w'_def resume_one_def run_simps split: option.split)
    then show ?thesis using w1 ok1 tab by (auto simp: carried_def resume_events_def)
  next
    case (Some err)
    from Resume_err [OF run [unfolded Some] rs(1)]
    have w1: "objs w1 = objs w" "sess w1 = sess w" "set (trace w) \<subseteq> set (trace w1)" by auto
    have w': "w' = snd (run_state (forgetStream i) w1)"
      using run Some rs w1 by (simp add: w'_def resume_one_def run_simps)
    have obj: "objs w1 ref = Some rs" using w1 rs by simp
    note f = forgetStream_run [OF ok1, where i = i]
    have "dropped i ref w'" using f(2) f(3) [OF obj] w1(2) tab by (auto simp: dropped_def w')
    moreover have "objs w' r = objs w r" if "r \<noteq> ref" for r
      using that w1 tab by (auto simp: w' forgetStream_def mark_abandoned_def run_simps split: option.splits)
    ultimately show ?thesis
      using f(1,2) w1 by (simp add: w' forgetStream_world)
  qed
  then show "streams_ok w'" and "ss_conn (sess w') = ss_conn (sess w) \<and> ss_ctrl (sess w') = ss_ctrl (sess w)"
    and "carried (ss_conn (sess w)) i ref w' \<or> dropped i ref w'"
    and "j \<noteq> i \<Longrightarrow> ss_streams (sess w') j = ss_streams (sess w) j"
    and "r \<noteq> ref \<Longrightarrow> objs w' r = objs w r"
    and "set (trace w) \<subseteq> set (trace w')"
    by blast+
qed

lemma resume_all_run:
  assumes "streams_ok w" and "list_all2 (\<lambda>i ref. ss_streams (sess w) i = Some ref) sids refs"
    and "distinct sids" and "run_state (resume_all N L R refs) w = (u, w')"
  shows "ss_conn (sess w') = ss_conn (sess w) \<and> ss_ctrl (sess w') = ss_ctrl (sess w) \<and> set (trace w) \<subseteq> set (trace w')
    \<and> list_all2 (\<lambda>i ref. carried (ss_conn (sess w)) i ref w' \<or> dropped i ref w') sids refs
    \<and> (\<forall>i ref. i \<notin> set sids \<longrightarrow> ref \<notin> set refs \<longrightarrow>
        ss_streams (sess w') i = ss_streams (sess w) i \<and> objs w' ref = objs w ref)"
  using assms
proof (induction refs arbitrary: w sids)
  case Nil
  then show ?case by (simp add: run_simps)
next
  case (Cons ref refs)
  then obtain i is' where sids: "sids = i # is'" "ss_streams (sess w) i = Some ref"
      "list_all2 (\<lambda>i ref. ss_streams (sess w) i = Some ref) is' refs" "i \<notin> set is'" "distinct is'"
    by (auto simp: list_all2_Cons2)
  define w1 where "w1 = snd (run_state (resume_one N L R ref) w)"
  note one = resume_one_run [OF Cons.prems(1) sids(2) w1_def]
  have ref: "ref \<notin> set refs"
  proof
    assume "ref \<in> set refs"
    then obtain k where k: "k < length refs" "refs ! k = ref" by (auto simp: in_set_conv_nth)
    then have "is' ! k \<in> set is'" "ss_streams (sess w) (is' ! k) = Some ref"
      using sids(3) by (auto simp: list_all2_conv_all_nth)
    then show False using streams_ok_inj [OF Cons.prems(1) sids(2)] sids(4) by blast
  qed
  have tab: "list_all2 (\<lambda>i ref. ss_streams (sess w1) i = Some ref) is' refs"
  proof -
    have "\<forall>j \<in> set is'. ss_streams (sess w1) j = ss_streams (sess w) j" using one(4) sids(4) by metis
    then show ?thesis using sids(3) by (auto simp: list_all2_conv_all_nth)
  qed
  have rest: "run_state (resume_all N L R refs) w1 = (u, w')"
    using Cons.prems(4) by (simp only: resume_all_Cons) (simp add: run_simps w1_def split: prod.splits)
  note ih = Cons.IH [OF one(1) tab sids(5) rest]
  have "carried (ss_conn (sess w)) i ref w' \<or> dropped i ref w'"
    using one(2,3) ih ref sids(4) by (auto simp: carried_def dropped_def)
  then show ?case using ih one(2,4,5,6) sids by auto
qed

lemma ActiveStreams_all2:
  assumes "range_order (ss_streams s) sids"
  shows "list_all2 (\<lambda>i ref. ss_streams s i = Some ref) sids (ActiveStreams sids s)"
proof -
  have "set js \<subseteq> dom (ss_streams s) \<Longrightarrow>
      list_all2 (\<lambda>i ref. ss_streams s i = Some ref) js (ActiveStreams js s)" for js
    by (induction js) (auto simp: ActiveStreams_def map_filter_simps)
  then show ?thesis using assms by (simp add: range_order_def)
qed

lemma reregister_trace:
  assumes "run_state (reregister N ct names) w = (None, w')"
  shows "(\<forall>name \<in> set names. EvWriteFrame ct FtRegister (MRegister name []) True \<in> set (trace w'))
    \<and> (\<exists>es. trace w' = trace w @ es)"
  using assms
proof (induction names arbitrary: w)
  case (Cons name names)
  let ?m = "MRegister name []"
  from Cons.prems obtain w1 where w1: "run_state (reregister N ct names) w1 = (None, w')"
      "trace w1 = trace w @ [EvWriteFrame ct FtRegister ?m True, EvParse ct True]"
    by (auto simp: run_simps split: option.splits sum.splits if_splits)
  from Cons.IH [OF w1(1)] w1(2) show ?case by auto
qed (auto simp: run_simps)

text \<open>Dialing and registering leave the session and its store alone.\<close>

lemma outside_only: "call_invariant (\<lambda>w. sess w = s \<and> objs w = h \<and> next_obj w = n)"
  by unfold_locales simp

lemmas reconnect_frame =
  preservesD [OF call_invariant.keeps_reconnect_dial [OF outside_only]]
  preservesD [OF call_invariant.keeps_reregister [OF outside_only]]

text \<open>The address the reconnect settles on, and the connections it leaves open.\<close>

lemma reconnect_dial_trace:
  assumes "run_state (reconnect_dial N L d uri addrs de) w = (r, w')"
  shows "no_leak w w' (case r of Inl _ \<Rightarrow> [] | Inr (c, _) \<Rightarrow> [c])
    \<and> (\<forall>c ct. r = Inr (c, ct) \<longrightarrow> (\<exists>a \<in> set addrs. EvDial d a (Some c) \<in> set (trace w')))"
  using assms
proof (induction addrs arbitrary: de w)
  case Nil
  then show ?case by (auto simp: run_simps)
next
  case (Cons a addrs)
  have skip: ?case if "run_state (reconnect_dial N L d uri addrs de') w1 = (r, w')" "no_leak w w1 []" for de' w1
    using Cons.IH [OF that(1)] no_leak_trans [OF that(2)] by (auto split: sum.splits)
  let ?r = "nl_Dial N d a (env w)"
  show ?case
  proof (cases "fst ?r")
    case (Inl e)
    then show ?thesis using Cons.prems
      by (intro skip [of "first_err de e" "w\<lparr>env := snd ?r, trace := trace w @ [EvDial d a None]\<rparr>"])
        (auto simp: run_simps no_leak_def)
  next
    case (Inr c)
    have retry: ?thesis if "run_state (reconnect_dial N L d uri addrs de) w1 = (r, w')"
        "trace w1 = trace w @ EvDial d a (Some c) # es @ [EvConnClose c]" "dialed es = []" "conns_closed es = []"
      for w1 es
      by (rule skip [OF that(1)]) (use that in \<open>auto simp: no_leak_def\<close>)
    let ?o = "nl_OpenStream N c (snd ?r)"
    show ?thesis
    proof (cases "fst ?o")
      case (Inl e)
      then show ?thesis using Cons.prems Inr
        by (intro retry [of "w\<lparr>env := snd (nl_ConnClose N c (snd ?o)),
            trace := trace w @ [EvDial d a (Some c), EvOpen c None, EvConnClose c]\<rparr>" "[EvOpen c None]"])
          (simp_all add: run_simps)
    next
      case ct: (Inr ct)
      let ?h = "nl_WriteFrame N ct FtHello (MHello ''orp/1'' uri) (snd ?o)"
      let ?p = "nl_ParseFrame N ct (snd ?h)"
      let ?ev = "\<lambda>b. EvWriteFrame ct FtHello (MHello ''orp/1'' uri) b"
      consider (send) e where "fst ?h = Some e" | (read) e where "fst ?h = None" "fst ?p = Inl e"
        | (ack) f e where "fst ?h = None" "fst ?p = Inr f" "um_HelloAck L f = Some e"
        | (ok) f where "fst ?h = None" "fst ?p = Inr f" "um_HelloAck L f = None"
        by (metis option.exhaust sum.exhaust)
      then show ?thesis
      proof cases
        case send
        then show ?thesis using Cons.prems Inr ct
          by (intro retry [of "w\<lparr>env := snd (nl_ConnClose N c (snd ?h)),
              trace := trace w @ [EvDial d a (Some c), EvOpen c (Some ct), ?ev False, EvConnClose c]\<rparr>"
              "[EvOpen c (Some ct), ?ev False]"]) (simp_all add: run_simps)
      next
        case read
        then show ?thesis using Cons.prems Inr ct
          by (intro retry [of "w\<lparr>env := snd (nl_ConnClose N c (snd ?p)),
              trace := trace w @ [EvDial d a (Some c), EvOpen c (Some ct), ?ev True, EvParse ct False, EvConnClose c]\<rparr>"
              "[EvOpen c (Some ct), ?ev True, EvParse ct False]"]) (simp_all add: run_simps)
      next
        case ack
        then show ?thesis using Cons.prems Inr ct
          by (intro retry [of "w\<lparr>env := snd (nl_ConnClose N c (snd ?p)),
              trace := trace w @ [EvDial d a (Some c), EvOpen c (Some ct), ?ev True, EvParse ct True, EvConnClose c]\<rparr>"
              "[EvOpen c (Some ct), ?ev True, EvParse ct True]"]) (simp_all add: run_simps)
      next
        case ok
        then show ?thesis using Cons.prems Inr ct by (auto simp: run_simps no_leak_def)
      qed
    qed
  qed
qed

lemma Reconnect_phases:
  assumes "run_state (Reconnect N L R addrs names sids) w = (None, w')"
  obtains c ct wa wb where
    "run_state (reconnect_dial N L (case ss_dialer (sess w) of Some d \<Rightarrow> d | None \<Rightarrow> DefaultDialer)
       (ss_agentURI (sess w)) addrs None) (snd (run_state (ConnClose_io N (ss_conn (sess w))) w)) = (Inr (c, ct), wa)"
    "run_state (reregister N ct names) (wa\<lparr>sess := (sess wa)\<lparr>ss_conn := c, ss_ctrl := ct\<rparr>\<rparr>) = (None, wb)"
    "run_state (resume_all N L R (ActiveStreams sids (sess wb))) wb = ((), w')"
  using assms by (auto simp: Reconnect_def run_simps split: if_splits prod.splits sum.splits option.splits)

section \<open>Properties of the reconnect\<close>

text \<open>
  C6. A successful \<open>Reconnect\<close> accounts for everything the session held: it runs on a
  connection dialed with the session's own dialer, every exposed service has been
  registered again on the new control stream, and each stream that was active is
  either live on a stream opened on that connection or removed and abandoned.
\<close>

theorem Reconnect_restores:
  assumes "streams_ok w" and "range_order (ss_handlers (sess w)) names"
    and "range_order (ss_streams (sess w)) sids"
    and "run_state (Reconnect N L R addrs names sids) w = (None, w')"
  shows "(\<exists>a \<in> set addrs. EvDial (case ss_dialer (sess w) of Some d \<Rightarrow> d | None \<Rightarrow> DefaultDialer) a
        (Some (ss_conn (sess w'))) \<in> set (trace w'))
    \<and> (\<forall>name \<in> dom (ss_handlers (sess w)).
        EvWriteFrame (ss_ctrl (sess w')) FtRegister (MRegister name []) True \<in> set (trace w'))
    \<and> (\<forall>i ref. ss_streams (sess w) i = Some ref \<longrightarrow>
        carried (ss_conn (sess w')) i ref w' \<or> dropped i ref w')"
proof -
  let ?w0 = "snd (run_state (ConnClose_io N (ss_conn (sess w))) w)"
  from Reconnect_phases [OF assms(4)] obtain c ct wa wb where
    dial: "run_state (reconnect_dial N L (case ss_dialer (sess w) of Some d \<Rightarrow> d | None \<Rightarrow> DefaultDialer)
       (ss_agentURI (sess w)) addrs None) ?w0 = (Inr (c, ct), wa)"
    and reg: "run_state (reregister N ct names) (wa\<lparr>sess := (sess wa)\<lparr>ss_conn := c, ss_ctrl := ct\<rparr>\<rparr>) = (None, wb)"
    and all: "run_state (resume_all N L R (ActiveStreams sids (sess wb))) wb = ((), w')"
    by blast
  have "sess ?w0 = sess w \<and> objs ?w0 = objs w \<and> next_obj ?w0 = next_obj w" by (simp add: run_simps)
  from reconnect_frame(1) [OF this dial]
  have wa: "sess wa = sess w \<and> objs wa = objs w \<and> next_obj wa = next_obj w" .
  let ?wm = "wa\<lparr>sess := (sess wa)\<lparr>ss_conn := c, ss_ctrl := ct\<rparr>\<rparr>"
  have wb: "sess wb = sess ?wm \<and> objs wb = objs ?wm \<and> next_obj wb = next_obj ?wm"
    using reconnect_frame(2) [OF _ reg] by blast
  have tab: "ss_streams (sess wb) = ss_streams (sess w)" "ss_conn (sess wb) = c" "ss_ctrl (sess wb) = ct"
    using wa wb by simp_all
  have ok: "streams_ok wb" using assms(1) wa wb by (simp add: streams_ok_def)
  have "list_all2 (\<lambda>i ref. ss_streams (sess wb) i = Some ref) sids (ActiveStreams sids (sess wb))"
    using assms(3) tab(1) by (intro ActiveStreams_all2) simp
  from resume_all_run [OF ok this _ all] assms(3)
  have res: "ss_conn (sess w') = c" "ss_ctrl (sess w') = ct" "set (trace wb) \<subseteq> set (trace w')"
      "list_all2 (\<lambda>i ref. carried c i ref w' \<or> dropped i ref w') sids (ActiveStreams sids (sess wb))"
    by (simp_all add: range_order_def tab)
  have "carried c i ref w' \<or> dropped i ref w'" if "ss_streams (sess w) i = Some ref" for i ref
  proof -
    have "i \<in> set sids" using that assms(3) by (auto simp: range_order_def)
    then obtain k where k: "k < length sids" "sids ! k = i" by (auto simp: in_set_conv_nth)
    have "ActiveStreams sids (sess wb) ! k = ref"
      using ActiveStreams_all2 [of "sess wb" sids] assms(3) tab(1) that k
      by (auto simp: list_all2_conv_all_nth)
    then show ?thesis using res(4) k by (auto simp: list_all2_conv_all_nth)
  qed
  moreover have "EvWriteFrame ct FtRegister (MRegister name []) True \<in> set (trace w')"
    if "name \<in> dom (ss_handlers (sess w))" for name
    using reregister_trace [OF reg] that assms(2) res(3) by (auto simp: range_order_def)
  moreover have "\<exists>a \<in> set addrs. EvDial (case ss_dialer (sess w) of Some d \<Rightarrow> d | None \<Rightarrow> DefaultDialer) a (Some c)
      \<in> set (trace w')"
    using reconnect_dial_trace [OF dial] reregister_trace [OF reg] res(3) by auto
  ultimately show ?thesis using res(1,2) by blast
qed

section \<open>The reconnect loop\<close>

definition quiet :: "event list \<Rightarrow> ('e, 's) sworld \<Rightarrow> bool" where
  "quiet tr w = (\<exists>es. trace w = tr @ es \<and> sleeps es = [])"

interpretation qt: call_invariant "quiet tr"
  by unfold_locales (auto simp: quiet_def)

lemma quiet_upd: "(\<And>w. trace (f w) = trace w) \<Longrightarrow> preserves (quiet tr) (upd f)"
  by (simp add: preserves_def run_simps quiet_def)

lemma quiet_put_sess: "preserves (quiet tr) (put_sess f)"
  by (simp add: preserves_def run_simps quiet_def)

lemmas quiet_keeps = keeps qt.keeps_io qt.keeps_emit quiet_upd quiet_put_sess qt.keeps_reconnect_dial
  qt.keeps_reregister qt.keeps_completeResume

lemma quiet_mark_abandoned: "preserves (quiet tr) (mark_abandoned ref)"
  unfolding mark_abandoned_def by (rule quiet_upd) (simp split: option.split)

lemma quiet_Resume: "preserves (quiet tr) (Resume N L R ref)"
  unfolding Resume_def SwapInner_def by (intro quiet_keeps) simp_all

lemma quiet_resume_all: "preserves (quiet tr) (resume_all N L R refs)"
proof (induction refs)
  case (Cons ref refs)
  then show ?case
    by (auto intro!: quiet_keeps quiet_Resume quiet_mark_abandoned simp: forgetStream_def split: option.split)
qed (simp add: quiet_keeps)

lemma quiet_Reconnect: "preserves (quiet tr) (Reconnect N L R addrs names sids)"
  unfolding Reconnect_def by (intro quiet_keeps quiet_resume_all)

lemma Reconnect_quiet:
  assumes "run_state (Reconnect N L R addrs names sids) w = (r, w')"
  shows "\<exists>es. trace w' = trace w @ es \<and> sleeps es = []"
  using preservesD [OF quiet_Reconnect [of "trace w"] _ assms] by (simp add: quiet_def)

lemma backoff_step: "(next_backoff ^^ n) 1000000000 = min (2 ^ n * 1000000000) maxBackoff"
proof (induction n)
  case (Suc n)
  then show ?case
    by (cases "2 ^ n * 1000000000 < maxBackoff") (simp_all add: next_backoff_def maxBackoff_def)
qed (simp add: maxBackoff_def)

lemma reconnect_loop_sleeps:
  assumes "run_state (reconnect_loop N L R addrs b atts) w = (r, w')"
  shows "\<exists>es k. trace w' = trace w @ es \<and> sleeps es = map (\<lambda>n. (next_backoff ^^ n) b) [0..<k] \<and> k \<le> length atts"
  using assms
proof (induction atts arbitrary: b w)
  case Nil
  then show ?case by (auto simp: run_simps)
next
  case (Cons a atts)
  obtain e w1 where rec: "run_state (Reconnect N L R addrs (at_names a) (at_sids a)) w = (e, w1)" by fastforce
  obtain es1 where es1: "trace w1 = trace w @ es1" "sleeps es1 = []" using Reconnect_quiet [OF rec] by blast
  show ?case
  proof (cases "e \<noteq> None \<and> \<not> at_ctxDone a")
    case False
    then have "\<exists>es. trace w' = trace w1 @ es \<and> sleeps es = []"
      using Cons.prems rec
      by (auto simp: run_simps restartControlReaderIfEnabled_def split: option.splits if_splits)
    then obtain es where "trace w' = trace w @ (es1 @ es)" "sleeps (es1 @ es) = map (\<lambda>n. (next_backoff ^^ n) b) [0..<0]"
      using es1 by auto
    then show ?thesis by blast
  next
    case True
    let ?w2 = "w1\<lparr>trace := trace w1 @ [EvSleep b]\<rparr>"
    have "run_state (reconnect_loop N L R addrs (next_backoff b) atts) ?w2 = (r, w')"
      using Cons.prems rec True by (auto simp: run_simps)
    from Cons.IH [OF this] obtain es k where es: "trace w' = trace ?w2 @ es"
        "sleeps es = map (\<lambda>n. (next_backoff ^^ n) (next_backoff b)) [0..<k]" "k \<le> length atts" by blast
    have "sleeps (es1 @ EvSleep b # es) = map (\<lambda>n. (next_backoff ^^ n) b) [0..<Suc k]"
      using es(2) es1(2) by (simp add: funpow_swap1 upt_conv_Cons map_Suc_upt [symmetric] comp_def del: upt_Suc)
    moreover have "trace w' = trace w @ (es1 @ EvSleep b # es)" using es(1) es1(1) by simp
    ultimately show ?thesis using es(3) by (metis Suc_le_mono length_Cons)
  qed
qed

definition reconnect_world :: "(script, ring_view) sworld" where
  "reconnect_world = sample_world\<lparr>sess := (sess sample_world)\<lparr>ss_handlers := [''s'' \<mapsto> 0]\<rparr>,
     env := idle_script\<lparr>sc_dials := [Inr 5], sc_opens := [Inr 6, Inr 9],
       sc_frames := [frame_of FtHelloAck [], frame_of FtRegisterAck [], frame_of FtStreamResume [7]]\<rparr>\<rparr>"

lemma reconnect_world_ok: "streams_ok reconnect_world"
  using sample_world_ok by (simp add: streams_ok_def reconnect_world_def)

lemma reconnect_world_run:
  "fst (run_state (Reconnect scripted scripted_orp (list_ring 8) [''r''] [''s''] [7]) reconnect_world) = None"
  by (simp add: Reconnect_def ActiveStreams_def Resume_def completeResume_def SwapInner_def run_simps
      reconnect_world_def sample_world_def wrapStream_def start_sworld_def sample_session_def new_session_def
      script_defs list_ring_def ring_norm_def close_ready_def map_filter_simps)

theorem Reconnect_restores_witness:
  "\<exists>w'. run_state (Reconnect scripted scripted_orp (list_ring 8) [''r''] [''s''] [7]) reconnect_world = (None, w')
    \<and> EvWriteFrame (ss_ctrl (sess w')) FtRegister (MRegister ''s'' []) True \<in> set (trace w')
    \<and> (carried (ss_conn (sess w')) 7 0 w' \<or> dropped 7 0 w')"
proof -
  obtain w' where run:
      "run_state (Reconnect scripted scripted_orp (list_ring 8) [''r''] [''s''] [7]) reconnect_world = (None, w')"
    using reconnect_world_run by (metis prod.collapse)
  have t: "ss_handlers (sess reconnect_world) = [''s'' \<mapsto> 0]" "ss_streams (sess reconnect_world) = [7 \<mapsto> 0]"
    by (simp_all add: reconnect_world_def sample_world_def wrapStream_def start_sworld_def sample_session_def
        new_session_def run_simps)
  from Reconnect_restores [OF reconnect_world_ok _ _ run] run show ?thesis
    by (auto simp: t range_order_def)
qed


text \<open>The flag is cleared whenever the loop returns.\<close>

lemma flag_outside: "call_invariant (\<lambda>w. \<not> ss_reconnecting (sess w))"
  by unfold_locales simp

lemmas flag_Run = preservesD [OF call_invariant.keeps_Run_session [OF flag_outside]]

lemma RunWithReconnect_result:
  "run_state (RunWithReconnect N L R addrs rounds) w = (Some r, w') \<Longrightarrow> \<not> ss_reconnecting (sess w) \<Longrightarrow>
     r = None \<and> \<not> ss_reconnecting (sess w')"
proof (induction rounds arbitrary: w rule: RunWithReconnect.induct)
  case (2 N L R addrs accepts attempts rounds)
  obtain a w1 where run: "run_state (Run_session accepts) w = (a, w1)" by fastforce
  have "\<not> ss_reconnecting (sess w1)" using flag_Run 2(3) run by blast
  then show ?case using 2 run
    by (auto simp: run_simps split: option.splits prod.splits if_splits)
qed (simp add: run_simps)

text \<open>
  \<open>RunWithReconnect\<close> never reports an error: however many reconnects fail, when it
  returns it returns nil, and the flag that marks a reconnect in progress is
  cleared again.
\<close>

theorem RunWithReconnect_returns_nil:
  assumes "run_state (RunWithReconnect N L R addrs rounds) w = (Some r, w')" and "\<not> ss_reconnecting (sess w)"
  shows "r = None \<and> \<not> ss_reconnecting (sess w')"
  using assms by (rule RunWithReconnect_result)

theorem RunWithReconnect_returns_nil_witness:
  "\<exists>r w'. run_state (RunWithReconnect scripted scripted_orp (list_ring 8) [''r'']
       [([Inl EOF], [\<lparr>at_names = [], at_sids = [7], at_ctxDone = True\<rparr>])]) sample_world = (Some r, w')
     \<and> r = None \<and> \<not> ss_reconnecting (sess w')"
proof -
  have flag: "\<not> ss_reconnecting (sess sample_world)"
    by (simp add: sample_world_def wrapStream_def start_sworld_def sample_session_def new_session_def run_simps)
  obtain r w' where run: "run_state (RunWithReconnect scripted scripted_orp (list_ring 8) [''r'']
       [([Inl EOF], [\<lparr>at_names = [], at_sids = [7], at_ctxDone = True\<rparr>])]) sample_world = (Some r, w')"
    by (simp add: Reconnect_def run_simps script_defs sample_world_def wrapStream_def start_sworld_def
        sample_session_def new_session_def)
  then show ?thesis using RunWithReconnect_returns_nil [OF run flag] by blast
qed

end
