(* ===== verification/Candidate.thy ===== *)
theory Candidate
  imports Scripted "HOL-Library.Multiset"
begin

text \<open>
  \<open>pkg/candidate/candidate.go\<close>: gathering of the addresses an agent advertises and
  their order.  \<open>net.InterfaceAddrs\<close> is an argument of \<open>HostCandidates\<close>; the relay's
  answer to the reflexive-address query comes through the frame library.  The
  contract of \<open>Sort\<close> is the locale \<open>stable_ranking\<close>, which the connectivity check
  builds on.
\<close>

section \<open>Host candidates\<close>

record candidate =
  Kind :: string
  Addr :: addr_port
  Priority :: uint32

text \<open>\<open>net.Addr\<close> as \<open>InterfaceAddrs\<close> yields it: an \<open>IPNet\<close> with its bytes, or anything else.\<close>

datatype iface_addr = IPNet "byte list option" | OtherNetAddr

definition hostPriority :: "addr \<Rightarrow> uint32" where
  "hostPriority ip =
     (let base = 50;
          base = (if IsPrivate ip then 30 else base);
          base = (if IsGlobalUnicast ip \<and> \<not> IsPrivate ip then 70 else base)
      in if Is6 ip then base + 10 else base)"

definition unroutable :: "addr \<Rightarrow> bool" where
  "unroutable ip = (\<not> IsValid ip \<or> IsLoopback ip \<or> IsLinkLocalUnicast ip \<or> IsMulticast ip
     \<or> IsUnspecified ip)"

fun hostCandidate :: "uint16 \<Rightarrow> iface_addr \<Rightarrow> candidate option" where
  "hostCandidate port OtherNetAddr = None"
| "hostCandidate port (IPNet None) = None"
| "hostCandidate port (IPNet (Some b)) = (case AddrFromSlice b of
       None \<Rightarrow> None
     | Some ip \<Rightarrow> (let ip = Unmap ip in
         if unroutable ip then None
         else Some \<lparr>Kind = ''host'', Addr = (ip, port), Priority = hostPriority ip\<rparr>))"

definition HostCandidates :: "(go_error + iface_addr list) \<Rightarrow> uint16 \<Rightarrow> candidate list" where
  "HostCandidates ifaces port = (case ifaces of
       Inl _ \<Rightarrow> []
     | Inr addrs \<Rightarrow> List.map_filter (hostCandidate port) addrs)"

section \<open>The server-reflexive query\<close>

text \<open>
  The reading goroutine of \<open>QueryServerReflexive\<close>, and the query itself.  \<open>sel\<close> is the
  ready branch of its \<open>select\<close>; when it is not the reader's, the reader stays behind
  on the control stream.  \<open>ctr\<close> is the global request counter and \<open>rnd\<close> the value
  of \<open>rand.Uint32\<close>.
\<close>

datatype srflx_sel = SelDone | SelTimer | SelCtx go_error

definition readObserved :: "'e netlib \<Rightarrow> orp_lib \<Rightarrow> stream \<Rightarrow> uint64 \<Rightarrow> ('e, 'm, go_error + candidate) io" where
  "readObserved N L ctrl reqid = do {
     r \<leftarrow> ParseFrame_io N ctrl;
     case r of
       Inl e \<Rightarrow> State_Monad.return (Inl (Wrapf ''candidate: read response'' e))
     | Inr f \<Rightarrow>
         if f_Type f \<noteq> FtObservedAddrResp then
           State_Monad.return (Inl (ErrorNew ''candidate: unexpected frame''))
         else (case um_ObservedAddrResp L f of
             Inl e \<Rightarrow> State_Monad.return (Inl e)
           | Inr resp \<Rightarrow>
               if oar_RequestId resp \<noteq> reqid then
                 State_Monad.return (Inl (ErrorNew ''candidate: response id mismatch''))
               else (case ParseAddr (oar_Ip resp) of
                   None \<Rightarrow> State_Monad.return (Inl (Wrapf ''candidate: parse ip'' (ErrorNew ''ParseAddr'')))
                 | Some ip \<Rightarrow> State_Monad.return (Inr \<lparr>Kind = ''srflx'',
                     Addr = (ip, ucast (oar_Port resp)), Priority = 20\<rparr>)))
   }"

definition nextRequest :: "uint32 \<Rightarrow> uint64 \<Rightarrow> uint64" where
  "nextRequest rnd ctr = (if ctr + 1 = 0 then ucast rnd OR 1 else ctr + 1)"

definition queryTimeout :: "int \<Rightarrow> int" where
  "queryTimeout timeout = (if timeout \<le> 0 then 2000000000 else timeout)"

definition QueryServerReflexive ::
  "'e netlib \<Rightarrow> orp_lib \<Rightarrow> stream \<Rightarrow> int \<Rightarrow> srflx_sel \<Rightarrow> uint32 \<Rightarrow> uint64 \<Rightarrow>
     ('e, 'm, go_error + candidate) io" where
  "QueryServerReflexive N L ctrl timeout sel rnd ctr = do {
     let reqid = nextRequest rnd ctr;
     w \<leftarrow> WriteFrame_io N ctrl FtObservedAddrQuery (MObservedAddrQuery reqid);
     case w of
       Some e \<Rightarrow> State_Monad.return (Inl (Wrapf ''candidate: send query'' e))
     | None \<Rightarrow> (case sel of
           SelDone \<Rightarrow> readObserved N L ctrl reqid
         | SelTimer \<Rightarrow> do {
             emit (EvGo (GoReadObserved ctrl));
             emit (EvSleep (nat (queryTimeout timeout)));
             State_Monad.return (Inl (ErrorNew ''candidate: server-reflexive query timed out''))
           }
         | SelCtx e \<Rightarrow> do {
             emit (EvGo (GoReadObserved ctrl));
             State_Monad.return (Inl e)
           })
   }"

section \<open>Sort\<close>

text \<open>
  The insertion sort as the code writes it: \<open>sift\<close> is the inner loop on index \<open>j\<close>,
  \<open>sort_from\<close> the outer one on index \<open>i\<close>.
\<close>

fun sift :: "candidate list \<Rightarrow> nat \<Rightarrow> candidate list" where
  "sift out 0 = out"
| "sift out (Suc j) =
     (if Priority (out ! Suc j) > Priority (out ! j)
      then sift (out[Suc j := out ! j, j := out ! Suc j]) j
      else out)"

function sort_from :: "nat \<Rightarrow> candidate list \<Rightarrow> candidate list" where
  "sort_from i out = (if i < length out then sort_from (i + 1) (sift out i) else out)"
  by auto

lemma length_sift [simp]: "length (sift out j) = length out"
  by (induction out j rule: sift.induct) auto

termination sort_from
  by (relation "measure (\<lambda>(i, out). length out - i)") auto

declare sort_from.simps [simp del]

definition Sort :: "candidate list \<Rightarrow> candidate list" where
  "Sort cs = sort_from 1 cs"

section \<open>The contract of a ranking\<close>

text \<open>
  What a client of \<open>Sort\<close> relies on: a rearrangement, in descending rank, that keeps
  the given order among elements of one rank.
\<close>

locale stable_ranking =
  fixes srt :: "'a list \<Rightarrow> 'a list"
    and rank :: "'a \<Rightarrow> 'k :: linorder"
  assumes srt_mset: "mset (srt xs) = mset xs"
    and srt_desc: "sorted_wrt (\<lambda>x y. rank y \<le> rank x) (srt xs)"
    and srt_stable: "filter (\<lambda>x. rank x = k) (srt xs) = filter (\<lambda>x. rank x = k) xs"
begin

lemma srt_set: "set (srt xs) = set xs"
  using srt_mset [of xs] mset_eq_setD by blast

text \<open>The first acceptable element of the ranking has the highest rank of all acceptable ones.\<close>

lemma find_srt_best:
  assumes "find P (srt xs) = Some x"
  shows "x \<in> set xs \<and> P x \<and> (\<forall>y \<in> set xs. P y \<longrightarrow> rank y \<le> rank x)"
proof -
  obtain i where i: "i < length (srt xs)" "srt xs ! i = x" "P x" "\<And>j. j < i \<Longrightarrow> \<not> P (srt xs ! j)"
    using assms by (auto simp: find_Some_iff)
  have "rank y \<le> rank x" if "y \<in> set xs" "P y" for y
  proof -
    have "y \<in> set (srt xs)" using that(1) srt_set [of xs] by simp
    then obtain j where j: "j < length (srt xs)" "srt xs ! j = y"
      by (auto simp: in_set_conv_nth)
    have "i \<le> j" using i(4) [of j] that(2) j(2) by (cases "j < i") simp_all
    then show ?thesis
      using sorted_wrt_nth_less [OF srt_desc [of xs], of i j] i(2) j by (cases "i = j") simp_all
  qed
  moreover have "x \<in> set xs" using nth_mem [OF i(1)] i(2) srt_set [of xs] by simp
  ultimately show ?thesis using i(3) by blast
qed

lemma find_srt_None: "find P (srt xs) = None \<longleftrightarrow> (\<forall>x \<in> set xs. \<not> P x)"
  by (auto simp: find_None_iff srt_set)

lemma hd_srt:
  assumes "xs \<noteq> []"
  shows "hd (srt xs) \<in> set xs \<and> (\<forall>y \<in> set xs. rank y \<le> rank (hd (srt xs)))"
proof -
  have "srt xs \<noteq> []" using assms srt_set [of xs] by force
  then have "find (\<lambda>_. True) (srt xs) = Some (hd (srt xs))" by (cases "srt xs") simp_all
  from find_srt_best [OF this] show ?thesis by simp
qed

end

section \<open>The insertion sort meets the contract\<close>

text \<open>\<open>put\<close> inserts behind every element of at least the same priority.\<close>

fun put :: "candidate \<Rightarrow> candidate list \<Rightarrow> candidate list" where
  "put x [] = [x]"
| "put x (y # ys) = (if Priority x \<le> Priority y then y # put x ys else x # y # ys)"

definition descending :: "candidate list \<Rightarrow> bool" where
  "descending = sorted_wrt (\<lambda>x y. Priority y \<le> Priority x)"

lemma put_snoc:
  "descending (xs @ [y]) \<Longrightarrow>
     put x (xs @ [y]) = (if Priority y < Priority x then put x xs @ [y] else xs @ [y, x])"
  by (induction xs) (auto simp: descending_def)

lemma sift_put: "descending xs \<Longrightarrow> sift (xs @ x # zs) (length xs) = put x xs @ zs"
proof (induction xs arbitrary: x zs rule: rev_induct)
  case (snoc y xs)
  have desc: "descending xs" using snoc.prems by (simp add: descending_def sorted_wrt_append)
  have swap: "(xs @ y # x # zs)[Suc (length xs) := y, length xs := x] = xs @ x # y # zs"
    by (simp add: list_update_append)
  show ?case
    using snoc.IH [OF desc, of x "y # zs"] swap
    by (simp add: put_snoc [OF snoc.prems] nth_append)
qed simp

lemma put_mset [simp]: "mset (put x xs) = add_mset x (mset xs)"
  by (induction xs) auto

lemma length_put [simp]: "length (put x xs) = Suc (length xs)"
  by (induction xs) auto

lemma put_desc: "descending xs \<Longrightarrow> descending (put x xs)"
proof (induction xs rule: rev_induct)
  case (snoc y xs)
  then have desc: "descending xs" by (simp add: descending_def sorted_wrt_append)
  have "set (put x xs) = insert x (set xs)"
    by (induction xs) auto
  then show ?case
    using snoc.IH [OF desc] snoc.prems
    by (auto simp: put_snoc descending_def sorted_wrt_append)
qed (simp add: descending_def)

lemma put_stable:
  assumes "descending xs"
  shows "filter (\<lambda>y. Priority y = k) (put x xs) = filter (\<lambda>y. Priority y = k) (xs @ [x])"
  using assms
proof (induction xs rule: rev_induct)
  case (snoc y xs)
  then have desc: "descending xs" by (simp add: descending_def sorted_wrt_append)
  show ?case using snoc.IH [OF desc] by (auto simp: put_snoc [OF snoc.prems])
qed simp

lemma sort_from_put:
  "descending xs \<Longrightarrow> sort_from (length xs) (xs @ ys) = fold put ys xs"
proof (induction ys arbitrary: xs)
  case Nil
  then show ?case by (simp add: sort_from.simps)
next
  case (Cons y ys)
  then show ?case
    using sort_from.simps [of "length xs" "xs @ y # ys"] Cons.IH [OF put_desc [OF Cons.prems, of y]]
    by (simp add: sift_put)
qed

lemma Sort_put: "Sort cs = fold put cs []"
proof (cases cs)
  case Nil
  then show ?thesis by (simp add: Sort_def sort_from.simps)
next
  case (Cons c cs')
  then show ?thesis
    using sort_from_put [of "[c]" cs'] by (simp add: Sort_def descending_def)
qed

lemma fold_put:
  "descending xs \<Longrightarrow> descending (fold put ys xs)
    \<and> mset (fold put ys xs) = mset xs + mset ys
    \<and> filter (\<lambda>y. Priority y = k) (fold put ys xs) = filter (\<lambda>y. Priority y = k) (xs @ ys)"
  by (induction ys arbitrary: xs) (simp_all add: put_desc put_stable)

interpretation rk: stable_ranking Sort Priority
proof
  fix xs k
  have "descending []" by (simp add: descending_def)
  from fold_put [OF this, of xs]
  show "mset (Sort xs) = mset xs"
    and "sorted_wrt (\<lambda>x y. Priority y \<le> Priority x) (Sort xs)"
    and "filter (\<lambda>x. Priority x = k) (Sort xs) = filter (\<lambda>x. Priority x = k) xs"
    by (simp_all add: Sort_put descending_def)
qed

lemma hostPriority_cases:
  assumes "\<not> unroutable ip" and "Unmap ip = ip"
  shows "hostPriority ip = (if Is6 ip then 10 else 0) +
    (if IsPrivate ip then 30 else if ip = Addr4 4294967295 then 50 else 70)"
  using assms by (cases ip)
    (auto simp: hostPriority_def unroutable_def netip_defs IsValid_def v4_def split: addr.splits)

lemma hostCandidate_Some:
  "hostCandidate port a = Some c \<longleftrightarrow> (\<exists>b ip. a = IPNet (Some b) \<and> AddrFromSlice b = Some ip
     \<and> \<not> unroutable (Unmap ip)
     \<and> c = \<lparr>Kind = ''host'', Addr = (Unmap ip, port), Priority = hostPriority (Unmap ip)\<rparr>)"
  by (cases "(port, a)" rule: hostCandidate.cases) (auto split: option.splits)

lemma set_map_filter: "set (List.map_filter f xs) = {y. \<exists>x \<in> set xs. f x = Some y}"
  by (auto simp: List.map_filter_def image_iff) force+

section \<open>Properties\<close>

text \<open>
  C38. The in-place insertion sort is the library's stable sort in descending
  order of priority: candidates of equal priority keep the order they came in.
\<close>

theorem Sort_is_stable_sort: "Sort cs = sort_key (\<lambda>c. - uint (Priority c)) cs"
proof (rule properties_for_sort_key [symmetric])
  show "mset (Sort cs) = mset cs" by (rule rk.srt_mset)
  have eq: "(\<lambda>x. - uint (Priority k) = - uint (Priority x)) = (\<lambda>x. Priority x = Priority k)" for k
    by (auto simp: fun_eq_iff word_uint_eq_iff)
  show "filter (\<lambda>x. - uint (Priority k) = - uint (Priority x)) (Sort cs)
      = filter (\<lambda>x. - uint (Priority k) = - uint (Priority x)) cs" for k
    unfolding eq by (rule rk.srt_stable)
  show "sorted (map (\<lambda>c. - uint (Priority c)) (Sort cs))"
    using rk.srt_desc [of cs] by (simp add: sorted_map word_le_def)
qed

text \<open>
  The host candidates are exactly the routable interface addresses: every
  candidate is a valid address that is neither loopback, link-local, multicast
  nor unspecified, unmapped and paired with the given port, and every such
  interface address yields one.  Its priority is 70 for a global address, 30 for
  a private one, 50 for the broadcast address, plus 10 for IPv6, so it always
  exceeds the 20 of a server-reflexive candidate.
\<close>

theorem HostCandidates_routable:
  "c \<in> set (HostCandidates (Inr addrs) port) \<longleftrightarrow>
     (\<exists>b ip. IPNet (Some b) \<in> set addrs \<and> AddrFromSlice b = Some ip \<and> Addr c = (Unmap ip, port)
        \<and> Kind c = ''host'' \<and> \<not> unroutable (Unmap ip)
        \<and> Priority c = (if Is6 (Unmap ip) then 10 else 0) +
            (if IsPrivate (Unmap ip) then 30 else if Unmap ip = Addr4 4294967295 then 50 else 70)
        \<and> 20 < Priority c)"
proof -
  have Unmap2: "Unmap (Unmap ip) = Unmap ip" for ip by (cases ip) auto
  have prio: "hostPriority (Unmap ip) = (if Is6 (Unmap ip) then 10 else 0) +
      (if IsPrivate (Unmap ip) then 30 else if Unmap ip = Addr4 4294967295 then 50 else 70)
      \<and> 20 < hostPriority (Unmap ip)" if "\<not> unroutable (Unmap ip)" for ip
    using hostPriority_cases [OF that Unmap2] by simp
  have "c \<in> set (HostCandidates (Inr addrs) port) \<longleftrightarrow>
     (\<exists>b ip. IPNet (Some b) \<in> set addrs \<and> AddrFromSlice b = Some ip \<and> \<not> unroutable (Unmap ip)
        \<and> c = \<lparr>Kind = ''host'', Addr = (Unmap ip, port), Priority = hostPriority (Unmap ip)\<rparr>)"
    unfolding HostCandidates_def sum.case set_map_filter mem_Collect_eq hostCandidate_Some by blast
  also have "\<dots> \<longleftrightarrow> (\<exists>b ip. IPNet (Some b) \<in> set addrs \<and> AddrFromSlice b = Some ip
        \<and> \<not> unroutable (Unmap ip) \<and> Addr c = (Unmap ip, port) \<and> Kind c = ''host''
        \<and> Priority c = hostPriority (Unmap ip))"
    by (cases c) auto
  finally show ?thesis using prio by metis
qed

lemma nextRequest_nonzero: "nextRequest rnd ctr \<noteq> 0"
proof -
  have "bit (ucast rnd OR (1 :: uint64)) 0" by (simp add: bit_or_iff bit_1_iff)
  then have "ucast rnd OR (1 :: uint64) \<noteq> 0" by (metis bit_0_eq bot_apply bot_bool_def)
  then show ?thesis by (simp add: nextRequest_def)
qed

text \<open>
  A server-reflexive candidate is only ever built from the relay's answer to
  this very query: the request identifier is non-zero even when the counter
  wraps, the query is the only frame sent, and success means the answer carried
  that identifier and an address that parses.
\<close>

theorem QueryServerReflexive_matched:
  assumes "run_state (QueryServerReflexive N L ctrl timeout sel rnd ctr) w = (Inr c, w')"
  shows "nextRequest rnd ctr \<noteq> 0 \<and> sel = SelDone
    \<and> trace w' = trace w @ [EvWriteFrame ctrl FtObservedAddrQuery
          (MObservedAddrQuery (nextRequest rnd ctr)) True, EvParse ctrl True]
    \<and> (\<exists>f resp ip. f_Type f = FtObservedAddrResp \<and> um_ObservedAddrResp L f = Inr resp
        \<and> oar_RequestId resp = nextRequest rnd ctr \<and> ParseAddr (oar_Ip resp) = Some ip
        \<and> c = \<lparr>Kind = ''srflx'', Addr = (ip, ucast (oar_Port resp)), Priority = 20\<rparr>)"
  using assms nextRequest_nonzero [of rnd ctr]
  by (auto simp: QueryServerReflexive_def readObserved_def run_simps
      split: option.splits sum.splits srflx_sel.splits if_splits)

theorem QueryServerReflexive_matched_witness:
  "\<exists>f. um_ObservedAddrResp scripted_orp f = Inr \<lparr>oar_RequestId = 5, oar_Ip = ''203.0.113.9'', oar_Port = 77\<rparr>
    \<and> fst (run_state (QueryServerReflexive scripted scripted_orp 3 0 SelDone 0 4)
        (script_world (idle_script\<lparr>sc_frames := [frame_of FtObservedAddrResp [5, 77]]\<rparr>)))
      = Inr \<lparr>Kind = ''srflx'', Addr = (Addr4 3405803785, 77), Priority = 20\<rparr>"
proof -
  let ?run = "run_state (QueryServerReflexive scripted scripted_orp 3 0 SelDone 0 4)
        (script_world (idle_script\<lparr>sc_frames := [frame_of FtObservedAddrResp [5, 77]]\<rparr>))"
  have ip: "ParseAddr ''203.0.113.9'' = Some (Addr4 3405803785)" by code_simp
  have run: "?run = (Inr \<lparr>Kind = ''srflx'', Addr = (Addr4 3405803785, 77), Priority = 20\<rparr>, snd ?run)"
    by (simp add: QueryServerReflexive_def readObserved_def nextRequest_def script_defs run_simps ip)
  obtain f resp where f: "um_ObservedAddrResp scripted_orp f = Inr resp" "oar_RequestId resp = 5"
      "ucast (oar_Port resp) = (77 :: uint16)" "ParseAddr (oar_Ip resp) = Some (Addr4 3405803785)"
    using QueryServerReflexive_matched [OF run] by (auto simp: nextRequest_def)
  then have "um_ObservedAddrResp scripted_orp \<lparr>f_Type = FtObservedAddrResp, f_Payload = [5, 77]\<rparr>
      = Inr \<lparr>oar_RequestId = 5, oar_Ip = ''203.0.113.9'', oar_Port = 77\<rparr>"
    by (simp add: script_defs)
  then show ?thesis using run by (metis fst_conv)
qed

end
