(* ===== verification/NetipText.thy ===== *)
theory NetipText
  imports Netip
begin

unbundle bit_operations_syntax

text \<open>
  The printed form of an address parses back to it (\<open>ParseAddr_String\<close>), for IPv4,
  IPv6 with and without a zone and with the longest run of zero groups elided, and
  IPv4-mapped addresses.  Peers exchange candidates as printed addresses, so this
  is what makes the exchange lossless.
\<close>

section \<open>Decimal fields\<close>

lemma dec_digit_char [simp]: "k < 10 \<Longrightarrow> dec_digit (char_of (48 + k)) = Some k"
  by (simp add: dec_digit_def)

lemma dec_digit_dot [simp]: "dec_digit CHR ''.'' = None"
  by (simp add: dec_digit_def)

lemma itoa1: "n < 10 \<Longrightarrow> itoa n = [char_of (48 + n)]"
  by (simp add: itoa.simps [of n])

lemma itoa2: "10 \<le> n \<Longrightarrow> n < 100 \<Longrightarrow> itoa n = [char_of (48 + n div 10), char_of (48 + n mod 10)]"
  using itoa1 [of "n div 10"] by (simp add: itoa.simps [of n])

lemma itoa3: "100 \<le> n \<Longrightarrow> n < 1000 \<Longrightarrow>
     itoa n = [char_of (48 + n div 100), char_of (48 + n div 10 mod 10), char_of (48 + n mod 10)]"
  using itoa2 [of "n div 10"] by (simp add: itoa.simps [of n] div_mult2_eq [symmetric])

lemmas itoa_small = itoa1 itoa2 itoa3

lemma fields_itoa:
  assumes "n < 256"
  shows "\<exists>d. ipv4_fields (itoa n @ rest) gap 0 0 fs = ipv4_fields rest False n d fs"
proof -
  consider "n < 10" | "10 \<le> n" "n < 100" | "100 \<le> n" by linarith
  then show ?thesis
  proof cases
    case 1
    then show ?thesis by (auto simp: itoa_small)
  next
    case 2
    then have "n div 10 < 10" "n div 10 \<noteq> 0" "n div 10 * 10 + n mod 10 = n" by auto
    then show ?thesis using 2 by (auto simp: itoa_small)
  next
    case 3
    have "n div 100 < 10" "n div 100 \<noteq> 0" "(n div 100 * 10 + n div 10 mod 10) * 10 + n mod 10 = n"
      "n div 100 * 10 + n div 10 mod 10 \<le> 25"
      using 3 assms by (auto simp: div_mult2_eq [of n 10 10, simplified])
    then show ?thesis using 3 assms by (auto simp: itoa_small)
  qed
qed

lemma itoa_digits: "c \<in> set (itoa n) \<Longrightarrow> \<exists>k < 10 :: nat. c = char_of (48 + k)"
proof (induction n rule: itoa.induct)
  case (1 n)
  show ?case
  proof (cases "n < 10")
    case True
    then show ?thesis using 1 itoa1 by auto
  next
    case False
    then have "c \<in> set (itoa (n div 10)) \<or> c = char_of (48 + n mod 10)"
      using 1 itoa.simps [of n] by auto
    moreover have "n mod 10 < 10" by simp
    ultimately show ?thesis using 1 False by blast
  qed
qed

lemma itoa_nonempty [simp]: "itoa n \<noteq> []"
  by (subst itoa.simps) simp

lemma v4_less: "unat (v4 w i) < 256"
  using unsigned_less [of "v4 w i", where ?'a = nat] by simp

lemma ipv4_fields_dot:
  "rest \<noteq> [] \<Longrightarrow> length fs < 3 \<Longrightarrow>
     ipv4_fields (CHR ''.'' # rest) False v d fs = ipv4_fields rest True 0 0 (fs @ [of_nat v])"
  by simp

lemma parseIPv4Fields_string4: "parseIPv4Fields (string4 w) = Some [v4 w 0, v4 w 1, v4 w 2, v4 w 3]"
proof -
  have field: "n < 256 \<Longrightarrow> rest \<noteq> [] \<Longrightarrow> length fs < 3 \<Longrightarrow>
      ipv4_fields (itoa n @ CHR ''.'' # rest) gap 0 0 fs = ipv4_fields rest True 0 0 (fs @ [of_nat n])"
    for n rest gap fs
    using fields_itoa [of n "CHR ''.'' # rest" gap fs] ipv4_fields_dot [of rest fs n] by metis
  have last: "n < 256 \<Longrightarrow> length fs = 3 \<Longrightarrow> ipv4_fields (itoa n) gap 0 0 fs = Some (fs @ [of_nat n])"
    for n gap fs
    using fields_itoa [of n "[]" gap fs] by auto
  show ?thesis
    by (simp add: parseIPv4Fields_def string4_def field last v4_less)
qed

lemma parseIPv4_string4: "parseIPv4 (string4 w) = Some (Addr4 w)"
proof -
  have "[v4 w 0, v4 w 1, v4 w 2, v4 w 3] = PutUint32 w"
    by (simp add: v4_def PutUint32_def)
  then show ?thesis
    using Uint32_PutUint32 [of w "[]"]
    unfolding parseIPv4_def parseIPv4Fields_string4 by (simp add: AddrFrom4_def)
qed

section \<open>Separators\<close>

definition seps :: "char set" where
  "seps = {CHR ''.'', CHR '':'', CHR ''%''}"

lemma hex_digit_sep: "c \<in> seps \<Longrightarrow> hex_digit c = None"
  by (auto simp: seps_def hex_digit_def)

lemma hex_digit_dec: "dec_digit c = Some k \<Longrightarrow> hex_digit c = Some k"
  by (auto simp: dec_digit_def hex_digit_def split: if_splits)

lemma itoa_hex: "c \<in> set (itoa n) \<Longrightarrow> \<exists>k < 10. hex_digit c = Some k"
  using itoa_digits hex_digit_dec dec_digit_char by metis

lemma itoa_no_sep: "c \<in> set (itoa n) \<Longrightarrow> c \<notin> seps"
  using itoa_hex hex_digit_sep by fastforce

lemma hex_digit_char [simp]: "d < 16 \<Longrightarrow> hex_digit (hex_char d) = Some d"
  by (simp add: hex_digit_def hex_char_def)

lemma hex_char_no_sep: "d < 16 \<Longrightarrow> hex_char d \<notin> seps"
  using hex_digit_sep by fastforce

lemma appendHex_no_sep: "c \<in> set (appendHex x) \<Longrightarrow> c \<notin> seps"
  using unsigned_less [of x, where ?'a = nat]
  by (auto simp: appendHex_def hex_char_no_sep split: if_splits)

lemma ParseAddr_dispatch:
  assumes "\<And>c. c \<in> set p \<Longrightarrow> c \<notin> seps" and "c \<in> seps"
  shows "ParseAddr (p @ c # r) = (if c = CHR ''.'' then parseIPv4 (p @ c # r)
    else if c = CHR '':'' then parseIPv6 (p @ c # r) else None)"
proof -
  have "dropWhile (\<lambda>x. x \<notin> seps) (p @ c # r) = c # r"
    using assms by (induction p) auto
  then show ?thesis by (simp add: ParseAddr_def seps_def)
qed

lemma ParseAddr_string4: "ParseAddr (string4 w) = Some (Addr4 w)"
proof -
  have "ParseAddr (itoa (unat (v4 w 0)) @ CHR ''.'' # itoa (unat (v4 w 1)) @ CHR ''.'' #
     itoa (unat (v4 w 2)) @ CHR ''.'' # itoa (unat (v4 w 3))) = parseIPv4 (string4 w)"
    using itoa_no_sep [of _ "unat (v4 w 0)"]
    by (subst ParseAddr_dispatch) (auto simp: string4_def seps_def)
  then show ?thesis unfolding string4_def [symmetric] parseIPv4_string4 .
qed

section \<open>Hexadecimal groups\<close>

lemma parse_hex_appendHex:
  assumes "rest = [] \<or> hd rest \<in> seps"
  shows "\<exists>off > 0. parse_hex (appendHex x @ rest) 0 0 = Some (off, unat x, rest)"
proof -
  let ?n = "unat x"
  have n: "?n < 65536" using unsigned_less [of x, where ?'a = nat] by simp
  have stop: "parse_hex rest off acc = Some (off, acc, rest)" for off acc
    using assms by (cases rest) (auto simp: hex_digit_sep)
  consider "?n < 16" | "16 \<le> ?n" "?n < 256" | "256 \<le> ?n" "?n < 4096" | "4096 \<le> ?n" by linarith
  then show ?thesis
  proof cases
    case 1
    then show ?thesis by (auto simp: appendHex_def stop)
  next
    case 2
    then have "?n div 16 < 16" by auto
    then show ?thesis using 2 by (auto simp: appendHex_def stop)
  next
    case 3
    then have "?n div 256 < 16" "(?n div 256 * 16 + ?n div 16 mod 16) * 16 + ?n mod 16 = ?n"
      by (auto simp: div_mult2_eq [of ?n 16 16, simplified])
    then show ?thesis using 3 n by (auto simp: appendHex_def stop)
  next
    case 4
    have "?n div 4096 < 16" using n by auto
    moreover have "((?n div 4096 * 16 + ?n div 256 mod 16) * 16 + ?n div 16 mod 16) * 16 + ?n mod 16 = ?n"
      using div_mult2_eq [of ?n 16 16] div_mult2_eq [of ?n 256 16]
      by (simp add: div_mult_mod_eq)
    ultimately show ?thesis using 4 n by (auto simp: appendHex_def stop)
  qed
qed

lemma string_groups_Cons:
  "string_groups (g # gs) = (if gs = [] then appendHex g else appendHex g @ CHR '':'' # string_groups gs)"
  by (cases gs) (simp_all add: string_groups_def)

lemma appendHex_nonempty [simp]: "appendHex x \<noteq> []"
  by (simp add: appendHex_def)

lemma hd_appendHex: "hd (appendHex x @ r) \<noteq> CHR '':''"
proof -
  have "hd (appendHex x @ r) \<in> set (appendHex x)" by simp
  then show ?thesis using appendHex_no_sep by (force simp: seps_def)
qed

text \<open>One group: at the end of the text, before a single colon, before the ellipsis.\<close>

lemma parse6_last: "parse6_loop (Suc n) (appendHex g) gs e = Some ([], gs @ [g], e)"
  using parse_hex_appendHex [of "[]" g] by auto

lemma parse6_colon:
  assumes "t \<noteq> []" and "hd t \<noteq> CHR '':''"
  shows "parse6_loop (Suc n) (appendHex g @ CHR '':'' # t) gs e = parse6_loop n t (gs @ [g]) e"
  using parse_hex_appendHex [of "CHR '':'' # t" g] assms
  by (cases t) (auto simp: seps_def)

lemma parse6_ellipsis:
  "parse6_loop (Suc n) (appendHex g @ ''::'' @ t) gs None =
     (if t = [] then Some ([], gs @ [g], Some (length gs + 1))
      else parse6_loop n t (gs @ [g]) (Some (length gs + 1)))"
  using parse_hex_appendHex [of "''::'' @ t" g] by (auto simp: seps_def)

lemma parse6_groups:
  "hs \<noteq> [] \<Longrightarrow> length hs \<le> n \<Longrightarrow> parse6_loop n (string_groups hs) gs e = Some ([], gs @ hs, e)"
proof (induction hs arbitrary: n gs)
  case (Cons h hs)
  then obtain m where m: "n = Suc m" by (cases n) auto
  show ?case
  proof (cases hs)
    case Nil
    then show ?thesis by (simp add: m string_groups_Cons parse6_last del: parse6_loop.simps)
  next
    case (Cons h' hs')
    then have "string_groups hs \<noteq> []" "hd (string_groups hs) \<noteq> CHR '':''"
      using hd_appendHex [of h' "[]"] hd_appendHex by (auto simp: string_groups_Cons)
    then show ?thesis
      using Cons.IH [of m "gs @ [h]"] Cons.prems \<open>hs = _\<close>
      by (simp add: m string_groups_Cons [of h] parse6_colon del: parse6_loop.simps)
  qed
qed simp

lemma parse6_groups_ellipsis:
  "hs \<noteq> [] \<Longrightarrow> length hs \<le> n \<Longrightarrow>
     parse6_loop n (string_groups hs @ ''::'' @ t) gs None =
       (if t = [] then Some ([], gs @ hs, Some (length gs + length hs))
        else parse6_loop (n - length hs) t (gs @ hs) (Some (length gs + length hs)))"
proof (induction hs arbitrary: n gs)
  case (Cons h hs)
  then obtain m where m: "n = Suc m" by (cases n) auto
  show ?case
  proof (cases hs)
    case Nil
    then show ?thesis
      using parse6_ellipsis [of m h t gs] by (simp add: m string_groups_Cons del: parse6_loop.simps)
  next
    case (Cons h' hs')
    then have "string_groups hs \<noteq> []" "hd (string_groups hs) \<noteq> CHR '':''"
      using hd_appendHex [of h' "[]"] hd_appendHex by (auto simp: string_groups_Cons)
    then show ?thesis
      using Cons.IH [of m "gs @ [h]"] Cons.prems \<open>hs = _\<close>
        parse6_colon [of "string_groups hs @ ''::'' @ t" m h gs None]
      by (simp add: m string_groups_Cons [of h] del: parse6_loop.simps)
  qed
qed simp

section \<open>The elided run of zero groups\<close>

definition zeros_at :: "uint16 list \<Rightarrow> nat \<times> nat \<Rightarrow> bool" where
  "zeros_at gs p = (case p of (a, b) \<Rightarrow> a + 2 \<le> b \<and> b \<le> length gs
     \<and> gs = take a gs @ replicate (b - a) 0 @ drop b gs)"

lemma takeWhile_zero: "takeWhile (\<lambda>g. g = (0 :: uint16)) xs = replicate (length (takeWhile (\<lambda>g. g = 0) xs)) 0"
  by (induction xs) auto

lemma zero_run_zeros:
  assumes "2 \<le> zero_run gs i"
  shows "zeros_at gs (i, i + zero_run gs i)"
proof -
  let ?l = "zero_run gs i"
  have le: "?l \<le> length (drop i gs)"
    unfolding zero_run_def by (rule length_takeWhile_le)
  have "drop i gs = replicate ?l 0 @ dropWhile (\<lambda>g. g = 0) (drop i gs)"
    using takeWhile_dropWhile_id [of "\<lambda>g. g = 0" "drop i gs"] takeWhile_zero [of "drop i gs"]
    by (simp add: zero_run_def)
  moreover have "dropWhile (\<lambda>g. g = 0) (drop i gs) = drop (i + ?l) gs"
    by (simp add: zero_run_def dropWhile_eq_drop add.commute)
  ultimately have "gs = take i gs @ replicate ?l 0 @ drop (i + ?l) gs"
    by (metis append_take_drop_id)
  then show ?thesis using assms le by (auto simp: zeros_at_def)
qed

lemma zero_span_zeros: "zero_span gs = Some p \<Longrightarrow> zeros_at gs p"
proof -
  have "pred_option (zeros_at gs) (fold
     (\<lambda>i best. let l = zero_run gs i in
        if l \<ge> 2 \<and> l > (case best of None \<Rightarrow> 0 | Some (a, b) \<Rightarrow> b - a) then Some (i, i + l) else best)
     is best)" if "pred_option (zeros_at gs) best" for "is" best
    using that by (induction "is" arbitrary: best) (simp_all add: zero_run_zeros)
  from this [of None "[0..<length gs]"]
  show "zero_span gs = Some p \<Longrightarrow> zeros_at gs p" by (simp add: zero_span_def)
qed

lemma take2_groups: "hs \<noteq> [] \<Longrightarrow> take 2 (string_groups hs @ t) \<noteq> ''::''"
proof (cases hs)
  case (Cons h hs')
  have "hd (string_groups hs @ t) \<noteq> CHR '':''"
    using hd_appendHex [of h] Cons by (cases hs') (simp_all add: string_groups_Cons)
  then show ?thesis by (cases "string_groups hs @ t") (auto simp: numeral_2_eq_2)
qed simp

lemma string_groups_eq_Nil [simp]: "string_groups hs = [] \<longleftrightarrow> hs = []"
  by (cases hs) (auto simp: string_groups_Cons, simp add: string_groups_def)

lemma parse6_body_string6:
  assumes "length gs = 8"
  shows "parse6_body (string6 gs) = Some gs"
proof (cases "zero_span gs")
  case None
  have "gs \<noteq> []" using assms by auto
  then show ?thesis
    using None assms take2_groups [of gs "[]"] parse6_groups [of gs 8 "[]" None]
    by (simp add: string6_def parse6_body_def finish6_def del: parse6_loop.simps)
next
  case (Some p)
  obtain a b where p: "p = (a, b)" by fastforce
  have z: "a + 2 \<le> b" "b \<le> 8" "gs = take a gs @ replicate (b - a) 0 @ drop b gs"
    using zero_span_zeros [OF Some] assms by (simp_all add: p zeros_at_def)
  have str: "string6 gs = string_groups (take a gs) @ ''::'' @ string_groups (drop b gs)"
    by (simp add: string6_def Some p)
  have fin: "finish6 ([], take a gs @ drop b gs, Some a) = Some gs"
    using z assms by (simp add: finish6_def)
  show ?thesis
  proof (cases "a = 0")
    case True
    show ?thesis
    proof (cases "drop b gs = []")
      case d: True
      have "gs = replicate 8 0" using z(3) True d assms z(2) by simp
      then show ?thesis using str True d by (simp add: parse6_body_def string_groups_def)
    next
      case False
      then show ?thesis
        using parse6_groups [OF False, of 8 "[]" "Some 0"] assms True fin
        by (simp add: str parse6_body_def string_groups_def [of "[]"] del: parse6_loop.simps)
    qed
  next
    case False
    then have ne: "take a gs \<noteq> []" using assms by auto
    have "parse6_loop 8 (string6 gs) [] None = Some ([], take a gs @ drop b gs, Some a)"
      using parse6_groups_ellipsis [OF ne, of 8 "string_groups (drop b gs)" "[]"]
        parse6_groups [of "drop b gs" "8 - a" "take a gs" "Some a"] assms z(1,2)
      by (auto simp: str min_def simp del: parse6_loop.simps)
    then show ?thesis
      using fin take2_groups [OF ne] by (simp add: parse6_body_def str del: parse6_loop.simps)
  qed
qed

section \<open>Groups and words\<close>

lemma bit_of_groups:
  "length gs \<le> 8 \<Longrightarrow> n < 128 \<Longrightarrow>
     bit (of_groups gs) n \<longleftrightarrow> n < 16 * length gs \<and> bit (gs ! (length gs - Suc (n div 16))) (n mod 16)"
proof (induction gs)
  case (Cons g gs)
  show ?case
  proof (cases "n < 16 * length gs")
    case True
    then have "n div 16 < length gs" by linarith
    then have "length (g # gs) - Suc (n div 16) = Suc (length gs - Suc (n div 16))" by simp
    then show ?thesis using Cons True by (simp add: bit_or_iff bit_push_bit_iff)
  next
    case False
    show ?thesis
    proof (cases "n < 16 * Suc (length gs)")
      case True
      then have div: "n div 16 = length gs" using False by auto
      moreover have "n - 16 * length gs = n mod 16"
        using minus_mult_div_eq_mod [of n 16] by (simp add: div)
      ultimately show ?thesis using Cons False True
        by (auto simp: bit_or_iff bit_push_bit_iff bit_ucast_iff)
    next
      case f: False
      then have "\<not> bit g (n - 16 * length gs)" using bit_imp_le_length [of g "n - 16 * length gs"] by auto
      then show ?thesis using Cons False f
        by (auto simp: bit_or_iff bit_push_bit_iff bit_ucast_iff)
    qed
  qed
qed simp

lemma of_groups_groups: "of_groups (groups w) = w"
proof (rule bit_word_eqI)
  fix n assume "n < LENGTH(128)"
  then have n: "n < 128" by simp
  then have "n div 16 < 8" by auto
  then have "groups w ! (7 - n div 16) = ucast (drop_bit (16 * (n div 16)) w)"
    by (simp add: groups_def v6u16_def right_diff_distrib')
  then show "bit (of_groups (groups w)) n \<longleftrightarrow> bit w n"
    using n bit_of_groups [of "groups w" n]
    by (simp add: groups_def bit_ucast_iff bit_drop_bit_eq)
qed

lemma pair16_v4:
  "pair16 (v4 (ucast w) 0) (v4 (ucast w) 1) = v6u16 w 6"
  "pair16 (v4 (ucast w) 2) (v4 (ucast w) 3) = v6u16 w 7"
  by (auto simp: pair16_def v4_def v6u16_def bit_or_iff bit_push_bit_iff bit_ucast_iff bit_drop_bit_eq
      add.commute intro!: bit_word_eqI)

lemma groups_4in6:
  assumes "drop_bit 32 w = 65535"
  shows "groups w = replicate 5 0 @ [65535, v6u16 w 6, v6u16 w 7]"
proof -
  have "v6u16 w i = ucast (drop_bit (80 - 16 * i) (drop_bit 32 w))" if "i \<le> 5" for i
    using that by (simp add: v6u16_def drop_bit_drop_bit)
  then have "v6u16 w i = ucast (drop_bit (80 - 16 * i) (65535 :: 128 word))" if "i \<le> 5" for i
    using that assms by simp
  then have "v6u16 w 0 = 0" "v6u16 w 1 = 0" "v6u16 w 2 = 0" "v6u16 w 3 = 0" "v6u16 w 4 = 0" "v6u16 w 5 = 65535"
    by (simp_all add: drop_bit_eq_div)
  then show ?thesis by (simp add: groups_def upt_rec numeral_eq_Suc)
qed

lemma parse_hex_itoa:
  assumes "n < 256" and "rest \<noteq> []" and "hd rest \<in> seps"
  shows "\<exists>off > 0. \<exists>acc. parse_hex (itoa n @ rest) 0 0 = Some (off, acc, rest)"
proof -
  have stop: "parse_hex rest off acc = Some (off, acc, rest)" for off acc
    using assms(2,3) by (cases rest) (auto simp: hex_digit_sep)
  have dig: "hex_digit (char_of (48 + k)) = Some k" if "k < 10" for k
    using that by (simp add: hex_digit_dec)
  consider "n < 10" | "10 \<le> n" "n < 100" | "100 \<le> n" by linarith
  then show ?thesis
  proof cases
    case 1
    then show ?thesis by (auto simp: itoa_small dig stop)
  next
    case 2
    then have "n div 10 < 10" by auto
    then show ?thesis using 2 by (auto simp: itoa_small dig stop)
  next
    case 3
    then have "n div 100 < 10" using assms(1) by auto
    then show ?thesis using 3 assms(1) by (auto simp: itoa_small dig stop)
  qed
qed

lemma parse6_string4:
  assumes "length gs \<le> 6"
  shows "parse6_loop (Suc n) (string4 w) gs (Some e)
    = Some ([], gs @ [pair16 (v4 w 0) (v4 w 1), pair16 (v4 w 2) (v4 w 3)], Some e)"
proof -
  define r where "r = CHR ''.'' # itoa (unat (v4 w 1)) @ CHR ''.'' # itoa (unat (v4 w 2)) @ CHR ''.'' #
    itoa (unat (v4 w 3))"
  have s: "string4 w = itoa (unat (v4 w 0)) @ r" by (simp add: string4_def r_def)
  obtain off acc where "off > 0" "parse_hex (string4 w) 0 0 = Some (off, acc, r)"
    using parse_hex_itoa [OF v4_less, of r w 0] by (auto simp: s r_def seps_def)
  then show ?thesis using assms parseIPv4Fields_string4 [of w] by (simp add: r_def)
qed

lemma parse6_body_4in6:
  assumes "drop_bit 32 w = 65535"
  shows "parse6_body (''::ffff:'' @ string4 (ucast w)) = Some (groups w)"
proof -
  have ffff: "appendHex 65535 = ''ffff''" by (simp add: appendHex_def hex_char_def) code_simp
  have ne: "string4 (ucast w :: uint32) \<noteq> []" by (simp add: string4_def)
  have "hd (string4 (ucast w :: uint32)) \<in> set (itoa (unat (v4 (ucast w :: uint32) 0)))"
    by (simp add: string4_def)
  then have "hd (string4 (ucast w :: uint32)) \<noteq> CHR '':''"
    using itoa_no_sep by (fastforce simp: seps_def)
  then have "parse6_loop 8 (''ffff:'' @ string4 (ucast w)) [] (Some 0) =
      parse6_loop 7 (string4 (ucast w)) [65535] (Some 0)"
    using parse6_colon [OF ne, of 7 65535 "[]" "Some 0"] unfolding ffff by (simp add: numeral_eq_Suc)
  also have "\<dots> = Some ([], [65535, v6u16 w 6, v6u16 w 7], Some 0)"
    using parse6_string4 [of "[65535]" 6 "ucast w" 0, unfolded pair16_v4] by (simp del: parse6_loop.simps)
  finally show ?thesis
    by (simp add: parse6_body_def finish6_def groups_4in6 [OF assms])
qed

section \<open>The round trip\<close>

lemma string_groups_sep: "c \<in> set (string_groups gs) \<Longrightarrow> c \<notin> {CHR ''%'', CHR ''.''}"
proof (induction gs)
  case (Cons g gs)
  then show ?case
    using appendHex_no_sep [of c g] by (auto simp: string_groups_Cons seps_def split: if_splits)
qed (simp add: string_groups_def)

lemma string6_no_percent: "CHR ''%'' \<notin> set (string6 gs)"
  using string_groups_sep by (fastforce simp: string6_def split: option.splits)

lemma string4_no_percent: "CHR ''%'' \<notin> set (string4 w)"
  using itoa_no_sep by (fastforce simp: string4_def seps_def)

lemma parseIPv6_zone:
  "CHR ''%'' \<notin> set s \<Longrightarrow> parseIPv6 (s @ zone_suffix z) = map_option (\<lambda>gs. Addr6 (of_groups gs) z) (parse6_body s)"
  by (auto simp: parseIPv6_def zone_suffix_def Cut_append Cut_absent)

lemma string6_colon:
  assumes "length gs = 8"
  shows "\<exists>p r. string6 gs = p @ CHR '':'' # r \<and> (\<forall>c \<in> set p. c \<notin> seps)"
proof -
  have split: "\<exists>p r. string_groups hs @ CHR '':'' # t = p @ CHR '':'' # r \<and> (\<forall>c \<in> set p. c \<notin> seps)" for hs t
  proof (cases hs)
    case Nil
    then show ?thesis by (auto simp: string_groups_def intro: exI [of _ "[]"])
  next
    case (Cons h hs')
    then have "\<exists>r. string_groups hs @ CHR '':'' # t = appendHex h @ CHR '':'' # r"
      by (auto simp: string_groups_Cons)
    then show ?thesis using appendHex_no_sep by blast
  qed
  show ?thesis
  proof (cases "zero_span gs")
    case None
    obtain g hs where gs: "gs = g # hs" "hs \<noteq> []" using assms by (cases gs; cases "tl gs") auto
    then have "string6 gs = appendHex g @ CHR '':'' # string_groups hs"
      using None by (simp add: string6_def string_groups_Cons)
    then show ?thesis using appendHex_no_sep by blast
  next
    case (Some p)
    then show ?thesis
      using split [of "take (fst p) gs" "CHR '':'' # string_groups (drop (snd p) gs)"]
      by (cases p) (simp add: string6_def)
  qed
qed

theorem ParseAddr_String: "IsValid a \<Longrightarrow> ParseAddr (String a) = Some a"
proof (cases a)
  case (Addr4 w)
  then show ?thesis by (simp add: ParseAddr_string4)
next
  case (Addr6 w z)
  show ?thesis
  proof (cases "drop_bit 32 w = 65535")
    case True
    have "ParseAddr ([] @ CHR '':'' # '':ffff:'' @ string4 (ucast w) @ zone_suffix z) =
        parseIPv6 ((''::ffff:'' @ string4 (ucast w)) @ zone_suffix z)"
      by (subst ParseAddr_dispatch) (auto simp: seps_def)
    also have "\<dots> = Some (Addr6 w z)"
      using string4_no_percent [of "ucast w"] parse6_body_4in6 [OF True]
      by (subst parseIPv6_zone) (simp_all add: of_groups_groups)
    finally show ?thesis using Addr6 True by simp
  next
    case False
    obtain p r where pr: "string6 (groups w) = p @ CHR '':'' # r" "\<forall>c \<in> set p. c \<notin> seps"
      using string6_colon [of "groups w"] by (auto simp: groups_def)
    have "ParseAddr (p @ CHR '':'' # r @ zone_suffix z) = parseIPv6 (string6 (groups w) @ zone_suffix z)"
      using pr by (subst ParseAddr_dispatch) (auto simp: seps_def)
    also have "\<dots> = Some (Addr6 w z)"
      by (simp add: parseIPv6_zone string6_no_percent parse6_body_string6 groups_def [THEN arg_cong [of _ _ length]] of_groups_groups)
    finally show ?thesis using Addr6 False pr by simp
  qed
qed (simp add: IsValid_def)

lemma ParseAddr_invalid: "ParseAddr (String AddrZero) = None"
  by code_simp

end
