(* ===== verification/P2P.thy ===== *)
theory P2P
  imports Candidate NetipText
begin

text \<open>
  \<open>pkg/p2p\<close>: the connectivity check over the peer's candidates (\<open>check.go\<close>), the
  promotion handshake (\<open>promoter.go\<close>) and the watcher of a promoted connection
  (\<open>demoter.go\<close>).  The promoter's hooks are actions; a missing hook is \<open>None\<close>.
  Round-trip times and log lines are left out.
\<close>

section \<open>The connectivity check\<close>

definition DefaultPerPairTimeout :: int where
  "DefaultPerPairTimeout = 500000000"

record check_result =
  cr_Local :: candidate
  cr_Remote :: candidate
  cr_Conn :: conn

record engine =
  perPair :: int
  e_dialer :: "dialer option"

definition NewEngine :: engine where
  "NewEngine = \<lparr>perPair = DefaultPerPairTimeout, e_dialer = None\<rparr>"

definition SetPerPairTimeout :: "int \<Rightarrow> engine \<Rightarrow> engine" where
  "SetPerPairTimeout d e = (if d > 0 then e\<lparr>perPair := d\<rparr> else e)"

definition SetDialer :: "dialer option \<Rightarrow> engine \<Rightarrow> engine" where
  "SetDialer d e = e\<lparr>e_dialer := d\<rparr>"

definition no_candidate :: candidate where
  "no_candidate = \<lparr>Kind = [], Addr = (AddrZero, 0), Priority = 0\<rparr>"

definition best_local :: "candidate list \<Rightarrow> candidate" where
  "best_local locals = (if locals = [] then no_candidate else hd (Sort locals))"

definition pair_dialer :: "engine \<Rightarrow> dialer" where
  "pair_dialer e = (case e_dialer e of Some d \<Rightarrow> d | None \<Rightarrow> DialQUIC)"

fun check_loop ::
  "'e netlib \<Rightarrow> engine \<Rightarrow> candidate list \<Rightarrow> candidate list \<Rightarrow> ('e, 'm, go_error + check_result) io" where
  "check_loop N e locals [] = State_Monad.return (Inl NoPair)"
| "check_loop N e locals (r # rs) =
     (if \<not> IsValid (fst (Addr r)) then check_loop N e locals rs
      else do {
        d \<leftarrow> Dial_io N (pair_dialer e) (AddrPort_String (Addr r));
        case d of
          Inl _ \<Rightarrow> do {
            c \<leftarrow> CtxErr_io N;
            case c of Some err \<Rightarrow> State_Monad.return (Inl err) | None \<Rightarrow> check_loop N e locals rs
          }
        | Inr cn \<Rightarrow> State_Monad.return
            (Inr \<lparr>cr_Local = best_local locals, cr_Remote = r, cr_Conn = cn\<rparr>)
      })"

definition Check ::
  "'e netlib \<Rightarrow> engine \<Rightarrow> candidate list \<Rightarrow> candidate list \<Rightarrow> ('e, 'm, go_error + check_result) io" where
  "Check N e locals remotes = check_loop N e locals (Sort remotes)"

section \<open>Candidates on the wire\<close>

definition toPBOne :: "candidate \<Rightarrow> pb_candidate" where
  "toPBOne c = \<lparr>pb_Kind = Kind c, pb_Ip = String (fst (Addr c)), pb_Port = ucast (snd (Addr c)),
     pb_Priority = Priority c\<rparr>"

definition toPB :: "candidate list \<Rightarrow> pb_candidate list" where
  "toPB cs = map toPBOne cs"

fun FromPB :: "pb_candidate list \<Rightarrow> candidate list" where
  "FromPB [] = []"
| "FromPB (c # cs) = (case ParseAddr (pb_Ip c) of
       None \<Rightarrow> FromPB cs
     | Some ip \<Rightarrow> \<lparr>Kind = pb_Kind c, Addr = (ip, ucast (pb_Port c)), Priority = pb_Priority c\<rparr> # FromPB cs)"

section \<open>The promoter\<close>

record ('e, 'm) promoter =
  pr_StreamID :: uint64
  pr_Engine :: "engine option"
  pr_Locals :: "candidate list"
  SendOffer :: "(candidate_set \<Rightarrow> ('e, 'm, go_error option) io) option"
  RecvAnswer :: "('e, 'm, go_error + candidate_set option) io option"
  SendMigrate :: "(uint64 \<Rightarrow> pb_candidate \<Rightarrow> ('e, 'm, go_error option) io) option"

definition Promoter_Run :: "'e netlib \<Rightarrow> ('e, 'm) promoter \<Rightarrow> ('e, 'm, go_error + check_result) io" where
  "Promoter_Run N p = (case (pr_Engine p, SendOffer p, RecvAnswer p) of
       (Some eng, Some send, Some recv) \<Rightarrow> do {
         s \<leftarrow> send \<lparr>cs_StreamId = pr_StreamID p, cs_Candidates = toPB (pr_Locals p)\<rparr>;
         case s of
           Some e \<Rightarrow> State_Monad.return (Inl (Wrapf ''p2p: send offer'' e))
         | None \<Rightarrow> do {
             a \<leftarrow> recv;
             case a of
               Inl e \<Rightarrow> State_Monad.return (Inl (Wrapf ''p2p: recv answer'' e))
             | Inr None \<Rightarrow> State_Monad.return (Inl (ErrorNew ''p2p: peer answer missing''))
             | Inr (Some answer) \<Rightarrow>
                 if cs_StreamId answer \<noteq> pr_StreamID p then
                   State_Monad.return (Inl (ErrorNew ''p2p: answer stream_id mismatch''))
                 else do {
                   res \<leftarrow> Check N eng (pr_Locals p) (FromPB (cs_Candidates answer));
                   case res of
                     Inl e \<Rightarrow> State_Monad.return (Inl e)
                   | Inr cr \<Rightarrow> (case SendMigrate p of
                         None \<Rightarrow> State_Monad.return (Inr cr)
                       | Some mig \<Rightarrow> do {
                           _ \<leftarrow> mig (pr_StreamID p) (toPBOne (cr_Remote cr));
                           State_Monad.return (Inr cr)
                         })
                 }
           }
       }
     | _ \<Rightarrow> State_Monad.return (Inl PromoterMisconfigured))"

section \<open>The demoter\<close>

datatype demote_reason = PeerClose | RTTTimeout

text \<open>
  The demoter over the results of \<open>AcceptStream\<close> in the order they come, each paired
  with \<open>ctx.Err\<close> at that moment: the streams closed, the calls of \<open>OnDegrade\<close>, and the
  returned error (\<open>None\<close> while still watching).
\<close>

fun demoter_loop ::
  "((go_error + stream) \<times> go_error option) list \<Rightarrow>
     stream list \<times> (demote_reason \<times> go_error) list \<times> go_error option" where
  "demoter_loop [] = ([], [], None)"
| "demoter_loop ((Inl e, ctx) # rs) = (case ctx of
       Some c \<Rightarrow> ([], [], Some c)
     | None \<Rightarrow> ([], [(PeerClose, e)], Some e))"
| "demoter_loop ((Inr st, _) # rs) = (case demoter_loop rs of (sts, ds, r) \<Rightarrow> (st # sts, ds, r))"

definition Demoter_Run ::
  "conn option \<Rightarrow> bool \<Rightarrow> ((go_error + stream) \<times> go_error option) list \<Rightarrow>
     stream list \<times> (demote_reason \<times> go_error) list \<times> go_error option" where
  "Demoter_Run c has_hook rs =
     (if c = None \<or> \<not> has_hook then ([], [], Some DemoterMisconfigured) else demoter_loop rs)"

section \<open>What the check dials\<close>

definition dial_failed :: "engine \<Rightarrow> candidate \<Rightarrow> event" where
  "dial_failed e r = EvDial (pair_dialer e) (AddrPort_String (Addr r)) None"

definition dial_ok :: "engine \<Rightarrow> candidate \<Rightarrow> conn \<Rightarrow> event" where
  "dial_ok e r cn = EvDial (pair_dialer e) (AddrPort_String (Addr r)) (Some cn)"

definition valid_cand :: "candidate \<Rightarrow> bool" where
  "valid_cand r = IsValid (fst (Addr r))"

text \<open>
  Whatever the network does, the check dials a prefix of the valid candidates, in
  order; all but the last fail, and the last decides the result.
\<close>

lemma check_loop_trace:
  assumes "run_state (check_loop N e locals rs) w = (res, w')"
  shows "\<exists>pre post. filter valid_cand rs = pre @ post \<and>
    (case res of
       Inr cr \<Rightarrow> cr_Local cr = best_local locals \<and> (\<exists>post'. post = cr_Remote cr # post') \<and>
         trace w' = trace w @ map (dial_failed e) pre @ [dial_ok e (cr_Remote cr) (cr_Conn cr)]
     | Inl err \<Rightarrow> trace w' = trace w @ map (dial_failed e) pre \<and> (post = [] \<and> err = NoPair \<or> pre \<noteq> []))"
  using assms
proof (induction rs arbitrary: w)
  case Nil
  then show ?case by (auto simp: run_simps)
next
  case (Cons r rs)
  let ?f = "nl_Dial N (pair_dialer e) (AddrPort_String (Addr r)) (env w)"
  show ?case
  proof (cases "valid_cand r")
    case False
    then show ?thesis using Cons by (simp add: valid_cand_def)
  next
    case True
    note valid = True [unfolded valid_cand_def]
    show ?thesis
    proof (cases "fst ?f")
      case (Inr cn)
      then show ?thesis using Cons.prems True valid
        by - (rule exI [of _ "[]"], rule exI [of _ "filter valid_cand (r # rs)"],
          auto simp: run_simps dial_ok_def)
    next
      case (Inl er)
      let ?w1 = "w\<lparr>env := snd (nl_CtxErr N (snd ?f)), trace := trace w @ [dial_failed e r]\<rparr>"
      show ?thesis
      proof (cases "fst (nl_CtxErr N (snd ?f))")
        case (Some err)
        then show ?thesis using Cons.prems True valid Inl
          by - (rule exI [of _ "[r]"], rule exI [of _ "filter valid_cand rs"],
            auto simp: run_simps dial_failed_def)
      next
        case None
        then have "run_state (check_loop N e locals rs) ?w1 = (res, w')"
          using Cons.prems valid Inl by (simp add: run_simps dial_failed_def)
        from Cons.IH [OF this] obtain pre post where
          "filter valid_cand rs = pre @ post" and
          "(case res of
             Inr cr \<Rightarrow> cr_Local cr = best_local locals \<and> (\<exists>post'. post = cr_Remote cr # post') \<and>
               trace w' = trace ?w1 @ map (dial_failed e) pre @ [dial_ok e (cr_Remote cr) (cr_Conn cr)]
           | Inl err \<Rightarrow> trace w' = trace ?w1 @ map (dial_failed e) pre
               \<and> (post = [] \<and> err = NoPair \<or> pre \<noteq> []))"
          by blast
        then show ?thesis using True
          by - (rule exI [of _ "r # pre"], rule exI [of _ post], auto split: sum.splits)
      qed
    qed
  qed
qed

text \<open>A dial recorded as failed did fail.\<close>

lemma check_loop_failures:
  assumes "run_state (check_loop N e locals rs) w = (res, w')" and "dial_failed e r \<notin> set (trace w)"
    and "dial_failed e r \<in> set (trace w')"
  shows "\<exists>en er. fst (nl_Dial N (pair_dialer e) (AddrPort_String (Addr r)) en) = Inl er"
  using assms
proof (induction rs arbitrary: w)
  case (Cons q rs)
  let ?f = "nl_Dial N (pair_dialer e) (AddrPort_String (Addr q)) (env w)"
  show ?case
  proof (cases "IsValid (fst (Addr q))")
    case False
    then show ?thesis using Cons by simp
  next
    case valid: True
    show ?thesis
    proof (cases "fst ?f")
      case (Inr cn)
      then show ?thesis using Cons.prems valid by (auto simp: run_simps dial_failed_def)
    next
      case (Inl er)
      let ?w1 = "w\<lparr>env := snd (nl_CtxErr N (snd ?f)), trace := trace w @ [dial_failed e q]\<rparr>"
      show ?thesis
      proof (cases "dial_failed e r = dial_failed e q")
        case True
        then show ?thesis using Inl by (metis dial_failed_def event.inject(1))
      next
        case False
        show ?thesis
        proof (cases "fst (nl_CtxErr N (snd ?f))")
          case None
          then have "run_state (check_loop N e locals rs) ?w1 = (res, w')"
            using Cons.prems valid Inl by (simp add: run_simps dial_failed_def)
          then show ?thesis using Cons.IH [of ?w1] Cons.prems False by simp
        next
          case (Some err)
          then show ?thesis using Cons.prems valid Inl False by (auto simp: run_simps dial_failed_def)
        qed
      qed
    qed
  qed
qed (simp add: run_simps)

lemma check_loop_no_ctx:
  assumes "\<And>en. fst (nl_CtxErr N en) = None" and "run_state (check_loop N e locals rs) w = (Inl err, w')"
  shows "err = NoPair \<and> trace w' = trace w @ map (dial_failed e) (filter valid_cand rs)"
  using assms(2)
proof (induction rs arbitrary: w)
  case (Cons q rs)
  then show ?case
    using assms(1) by (auto simp: run_simps valid_cand_def dial_failed_def split: if_splits sum.splits)
qed (simp add: run_simps)

lemma chosen_rank:
  assumes "filter valid_cand (Sort remotes) = pre @ c # post" and "r \<in> set remotes" and "valid_cand r"
  shows "r \<in> set pre \<or> Priority r \<le> Priority c"
proof -
  have "r \<in> set (pre @ c # post)" using assms(2,3) by (simp add: assms(1) [symmetric] rk.srt_set)
  moreover have "sorted_wrt (\<lambda>x y. Priority y \<le> Priority x) (pre @ c # post)"
    using sorted_wrt_filter [OF rk.srt_desc [of remotes], of valid_cand] by (simp add: assms(1))
  ultimately show ?thesis by (auto simp: sorted_wrt_append)
qed

section \<open>Properties\<close>

lemma Check_ok:
  assumes "run_state (Check N e locals remotes) w = (Inr cr, w')"
  shows "cr_Remote cr \<in> set remotes \<and> valid_cand (cr_Remote cr) \<and> cr_Local cr = best_local locals \<and>
    (\<exists>failed. trace w' = trace w @ map (dial_failed e) failed @ [dial_ok e (cr_Remote cr) (cr_Conn cr)]
       \<and> (\<forall>r \<in> set remotes. valid_cand r \<and> Priority (cr_Remote cr) < Priority r \<longrightarrow> r \<in> set failed))"
proof -
  from check_loop_trace [OF assms [unfolded Check_def]]
  obtain pre post where split: "filter valid_cand (Sort remotes) = pre @ cr_Remote cr # post"
    and loc: "cr_Local cr = best_local locals"
    and tr: "trace w' = trace w @ map (dial_failed e) pre @ [dial_ok e (cr_Remote cr) (cr_Conn cr)]"
    by auto
  have "cr_Remote cr \<in> set (filter valid_cand (Sort remotes))" by (simp add: split)
  then have "cr_Remote cr \<in> set remotes" "valid_cand (cr_Remote cr)" by (simp_all add: rk.srt_set)
  moreover have "r \<in> set pre"
    if "r \<in> set remotes" "valid_cand r" "Priority (cr_Remote cr) < Priority r" for r
    using chosen_rank [OF split that(1,2)] that(3) by auto
  ultimately show ?thesis using tr loc by blast
qed

text \<open>
  C36. A connectivity check that succeeds settles on the best candidate that could
  be reached: the selected remote is one of the peer's valid candidates, its
  connection is the one the last dial returned, every earlier dial failed, and
  each valid candidate of a higher priority is among those failures.
\<close>

theorem Check_picks_best:
  assumes "run_state (Check N e locals remotes) w = (Inr cr, w')"
  shows "cr_Remote cr \<in> set remotes \<and> valid_cand (cr_Remote cr) \<and> cr_Local cr = best_local locals \<and>
    (\<exists>failed. trace w' = trace w @ map (dial_failed e) failed @ [dial_ok e (cr_Remote cr) (cr_Conn cr)]
       \<and> (\<forall>r \<in> set remotes. valid_cand r \<and> Priority (cr_Remote cr) < Priority r \<longrightarrow> r \<in> set failed))"
  using assms by (rule Check_ok)

text \<open>
  The check finds a path whenever there is one: while the context lives, if
  some valid candidate of the peer always accepts a dial, the check returns a
  connection, on a candidate of at least that priority.
\<close>

theorem Check_finds_reachable:
  assumes "\<And>en. fst (nl_CtxErr N en) = None"
    and "r \<in> set remotes" and "valid_cand r"
    and "\<And>en. \<exists>cn. fst (nl_Dial N (pair_dialer e) (AddrPort_String (Addr r)) en) = Inr cn"
    and "trace w = []"
  shows "\<exists>cr w'. run_state (Check N e locals remotes) w = (Inr cr, w')
    \<and> Priority r \<le> Priority (cr_Remote cr)"
proof -
  obtain res w' where run: "run_state (check_loop N e locals (Sort remotes)) w = (res, w')"
    by fastforce
  have ok: "dial_failed e r \<notin> set (trace w')"
  proof
    assume "dial_failed e r \<in> set (trace w')"
    from check_loop_failures [OF run _ this] assms(5)
    obtain en er where "fst (nl_Dial N (pair_dialer e) (AddrPort_String (Addr r)) en) = Inl er" by auto
    then show False using assms(4) [of en] by auto
  qed
  show ?thesis
  proof (cases res)
    case (Inl err)
    from check_loop_no_ctx [OF assms(1) run [unfolded Inl]] ok
    have "r \<notin> set (filter valid_cand (Sort remotes))" by auto
    then show ?thesis using assms(2,3) by (simp add: rk.srt_set)
  next
    case (Inr cr)
    from check_loop_trace [OF run] Inr
    obtain pre post where split: "filter valid_cand (Sort remotes) = pre @ cr_Remote cr # post"
      and tr: "trace w' = trace w @ map (dial_failed e) pre @ [dial_ok e (cr_Remote cr) (cr_Conn cr)]"
      by auto
    have "r \<notin> set pre" using ok tr by auto
    then have "Priority r \<le> Priority (cr_Remote cr)"
      using chosen_rank [OF split assms(2,3)] by simp
    then show ?thesis using run Inr by (auto simp: Check_def)
  qed
qed

text \<open>
  A network in which one address accepts and the context lives, for the concrete runs.
\<close>

definition one_reachable :: "string \<Rightarrow> conn \<Rightarrow> script netlib" where
  "one_reachable a cn = scripted\<lparr>nl_Dial := (\<lambda>d x s. (if x = a then Inr cn else Inl DeadlineExceeded, s)),
     nl_CtxErr := (\<lambda>s. (None, s))\<rparr>"

definition cand1 :: candidate where
  "cand1 = \<lparr>Kind = ''host'', Addr = (Addr4 167772161, 7445), Priority = 30\<rparr>"

definition cand2 :: candidate where
  "cand2 = \<lparr>Kind = ''srflx'', Addr = (Addr4 3405803785, 4000), Priority = 20\<rparr>"

lemma cand_strings:
  "AddrPort_String (Addr cand1) = ''10.0.0.1:7445''"
  "AddrPort_String (Addr cand2) = ''203.0.113.9:4000''"
  by (simp_all add: cand1_def cand2_def string4_def itoa.simps v4_def drop_bit_eq_div char_of_def
      bit_Suc_0_iff)

lemma Sort_cands: "Sort [cand2, cand1] = [cand1, cand2]"
  by code_simp

lemma cand_simps: "IsValid (fst (Addr cand1))" "IsValid (fst (Addr cand2))"
  by (simp_all add: cand1_def cand2_def IsValid_def)

lemma Check_run_example:
  "run_state (Check (one_reachable ''203.0.113.9:4000'' 9) NewEngine [] [cand2, cand1])
     (script_world idle_script) =
   (Inr \<lparr>cr_Local = no_candidate, cr_Remote = cand2, cr_Conn = 9\<rparr>,
    \<lparr>env = idle_script, trace = [dial_failed NewEngine cand1, dial_ok NewEngine cand2 9]\<rparr>)"
  by (simp add: Check_def Sort_cands cand_simps cand_strings run_simps one_reachable_def script_world_def
      best_local_def dial_failed_def dial_ok_def)

theorem Check_picks_best_witness:
  "cand2 \<in> set [cand2, cand1] \<and> valid_cand cand2 \<and>
   (\<exists>failed. [dial_failed NewEngine cand1, dial_ok NewEngine cand2 9]
       = map (dial_failed NewEngine) failed @ [dial_ok NewEngine cand2 9] \<and> cand1 \<in> set failed)"
proof -
  have "valid_cand cand1" "Priority cand2 < Priority cand1"
    by (simp_all add: valid_cand_def cand_simps cand1_def cand2_def IsValid_def)
  then show ?thesis
    using Check_picks_best [OF Check_run_example] by (auto simp: script_world_def)
qed

theorem Check_finds_reachable_witness:
  "\<exists>cr w'. run_state (Check (one_reachable ''203.0.113.9:4000'' 9) NewEngine [] [cand2, cand1])
     (script_world idle_script) = (Inr cr, w') \<and> Priority cand2 \<le> Priority (cr_Remote cr)"
  by (rule Check_finds_reachable)
    (auto simp: one_reachable_def script_world_def valid_cand_def cand_simps cand_strings)

text \<open>
  A promotion succeeds only after the whole handshake: offer sent, answer for the same
  stream received, check passed; the migrate notice comes last and its failure does
  not change the result.
\<close>

lemma Promoter_Run_ok:
  assumes "run_state (Promoter_Run N p) w = (Inr cr, w')"
  shows "\<exists>eng send recv w1 answer w2 w3. pr_Engine p = Some eng \<and> SendOffer p = Some send
    \<and> RecvAnswer p = Some recv
    \<and> run_state (send \<lparr>cs_StreamId = pr_StreamID p, cs_Candidates = toPB (pr_Locals p)\<rparr>) w = (None, w1)
    \<and> run_state recv w1 = (Inr (Some answer), w2) \<and> cs_StreamId answer = pr_StreamID p
    \<and> run_state (Check N eng (pr_Locals p) (FromPB (cs_Candidates answer))) w2 = (Inr cr, w3)
    \<and> w' = (case SendMigrate p of None \<Rightarrow> w3
        | Some mig \<Rightarrow> snd (run_state (mig (pr_StreamID p) (toPBOne (cr_Remote cr))) w3))"
  using assms
  by (auto simp: Promoter_Run_def run_simps
      split: option.splits prod.splits sum.splits if_splits)

lemma FromPB_cand2: "FromPB [toPBOne cand2] = [cand2]"
  by code_simp

lemma demoter_loop_streams:
  "demoter_loop (map (\<lambda>(st, c). (Inr st, c)) sts @ rs) =
     (case demoter_loop rs of (cl, ds, r) \<Rightarrow> (map fst sts @ cl, ds, r))"
  by (induction sts) (auto split: prod.splits)

text \<open>
  The demoter reports a lost direct path once and only then: over any sequence
  of accepted streams followed by a failing accept it closes each stream the peer
  opened, calls the degrade hook exactly once with the failure if the context is
  still alive and not at all if it is cancelled, and returns that failure or the
  context's error.
\<close>

theorem Demoter_Run_once:
  "Demoter_Run (Some c) True (map (\<lambda>(st, x). (Inr st, x)) sts @ (Inl e, ctx) # rest) =
     (map fst sts, (case ctx of None \<Rightarrow> [(PeerClose, e)] | Some _ \<Rightarrow> []),
      Some (case ctx of None \<Rightarrow> e | Some ce \<Rightarrow> ce))"
  by (simp add: Demoter_Run_def demoter_loop_streams split: option.split)

lemma FromPB_toPB: "FromPB (toPB cs) = filter valid_cand cs"
proof (induction cs)
  case (Cons c cs)
  have port: "ucast (ucast p :: uint32) = p" for p :: uint16
    by (rule bit_word_eqI) (simp add: bit_ucast_iff)
  show ?case
  proof (cases "valid_cand c")
    case True
    then have "ParseAddr (String (fst (Addr c))) = Some (fst (Addr c))"
      by (simp add: valid_cand_def ParseAddr_String)
    then show ?thesis using Cons True by (simp add: toPB_def toPBOne_def port)
  next
    case False
    then have "fst (Addr c) = AddrZero" by (simp add: valid_cand_def IsValid_def)
    then show ?thesis using Cons False ParseAddr_invalid by (simp add: toPB_def toPBOne_def)
  qed
qed (simp add: toPB_def)

text \<open>
  C37. Candidates survive the wire: decoding the encoded list gives back the same
  candidates in the same order, for IPv4, IPv6, zoned and IPv4-mapped addresses
  alike; the only ones dropped are those without a valid address.
\<close>

theorem candidates_round_trip: "FromPB (toPB cs) = filter valid_cand cs"
  by (rule FromPB_toPB)

end
