(* ===== verification/Control.thy ===== *)
theory Control
  imports Resuming P2P
begin

text \<open>
  The control stream of a session (\<open>pkg/session/promote.go\<close> and
  \<open>pkg/session/checkpoints.go\<close>): \<open>EnableP2P\<close>, the reader that dispatches control frames,
  the answer to a candidate offer with its warm-up punch, the table of pending
  answers, and the checkpoints that let both ends free their ring buffers.

  The lists a decoded message carries hold no nil elements, so the code's nil checks
  on them have no counterpart here.
\<close>

section \<open>Checkpoints\<close>

definition writeCtrl :: "'e netlib \<Rightarrow> frame_type \<Rightarrow> orp_msg \<Rightarrow> ('e, 's, go_error option) sio" where
  "writeCtrl N t m = do { ctrl \<leftarrow> get ss_ctrl; WriteFrame_io N ctrl t m }"

definition checkpoint_of :: "'s resume_lib \<Rightarrow> 's rstream \<Rightarrow> stream_checkpoint" where
  "checkpoint_of R rs = \<lparr>cp_StreamId = rs_ID rs, cp_MyPosition = rl_Sent R (rs_state rs),
     cp_PeerAckPosition = rl_Received R (rs_state rs)\<rparr>"

text \<open>The sending loop of \<open>emitOnce\<close>, over the streams collected under the lock.\<close>

fun emit_loop :: "'e netlib \<Rightarrow> 's resume_lib \<Rightarrow> nat list \<Rightarrow> ('e, 's, unit) sio" where
  "emit_loop N R [] = State_Monad.return ()"
| "emit_loop N R (ref # refs) = do {
     o1 \<leftarrow> obs (\<lambda>w. objs w ref);
     case o1 of
       None \<Rightarrow> State_Monad.return ()
     | Some rs \<Rightarrow> do {
         e \<leftarrow> writeCtrl N FtStreamCheckpoint (MStreamCheckpoint (checkpoint_of R rs));
         case e of Some _ \<Rightarrow> State_Monad.return () | None \<Rightarrow> emit_loop N R refs
       }
   }"

definition emitOnce :: "'e netlib \<Rightarrow> 's resume_lib \<Rightarrow> uint64 list \<Rightarrow> ('e, 's, unit) sio" where
  "emitOnce N R sids = do { refs \<leftarrow> get (ActiveStreams sids); emit_loop N R refs }"

text \<open>
  The ticker loop over what its \<open>select\<close> delivers: a tick with the iteration order of
  that round (\<open>Some\<close>), or the end of the context (\<open>None\<close>).  The result says whether the
  loop has ended.
\<close>

fun emitCheckpoints :: "'e netlib \<Rightarrow> 's resume_lib \<Rightarrow> uint64 list option list \<Rightarrow> ('e, 's, bool) sio" where
  "emitCheckpoints N R [] = State_Monad.return False"
| "emitCheckpoints N R (None # ts) = State_Monad.return True"
| "emitCheckpoints N R (Some sids # ts) = do { emitOnce N R sids; emitCheckpoints N R ts }"

definition applyCheckpoint :: "'s resume_lib \<Rightarrow> stream_checkpoint \<Rightarrow> ('e, 's, unit) sio" where
  "applyCheckpoint R cp = do {
     r \<leftarrow> get (\<lambda>s. ss_streams s (cp_StreamId cp));
     case r of
       None \<Rightarrow> State_Monad.return ()
     | Some ref \<Rightarrow> upd (\<lambda>w. case objs w ref of
           None \<Rightarrow> w
         | Some rs \<Rightarrow> w\<lparr>objs := (objs w)(ref \<mapsto>
               rs\<lparr>rs_state := rl_OnCheckpoint R (cp_PeerAckPosition cp) (rs_state rs)\<rparr>)\<rparr>)
   }"

section \<open>Switching the reader on\<close>

definition or_empty :: "('k \<rightharpoonup> 'v) option \<Rightarrow> ('k \<rightharpoonup> 'v)" where
  "or_empty m = (case m of None \<Rightarrow> Map.empty | Some f \<Rightarrow> f)"

text \<open>\<open>ctx\<close> says whether the context passed is one (not nil).\<close>

definition EnableP2P :: "bool \<Rightarrow> ('e, 's, unit) sio" where
  "EnableP2P ctx = do {
     already \<leftarrow> get ss_p2pEnabled;
     put_sess (\<lambda>s. s\<lparr>ss_pendingAnswers := Some (or_empty (ss_pendingAnswers s)),
       ss_pendingMode := Some (or_empty (ss_pendingMode s)), ss_p2pEnabled := True, ss_p2pCtx := ctx\<rparr>);
     (if already then State_Monad.return () else emit (EvGo GoControlReader))
   }"

text \<open>\<open>ms\<close> is \<open>resume.CheckpointPeriodMs\<close>; durations are in nanoseconds.\<close>

definition StartResume :: "int \<Rightarrow> bool \<Rightarrow> int \<Rightarrow> ('e, 's, unit) sio" where
  "StartResume ms ctx period = do {
     let period = (if period \<le> 0 then ms * 1000000 else period);
     EnableP2P ctx;
     emit (EvGo (GoEmitCheckpoints period))
   }"

section \<open>Offers\<close>

definition SetLocalCandidates :: "pb_candidate list \<Rightarrow> ('e, 's, unit) sio" where
  "SetLocalCandidates cs = put_sess (\<lambda>s. s\<lparr>ss_localCandidates := cs\<rparr>)"

definition AnswerOffer :: "candidate_set \<Rightarrow> session \<Rightarrow> candidate_set" where
  "AnswerOffer offer s = \<lparr>cs_StreamId = cs_StreamId offer, cs_Candidates = ss_localCandidates s\<rparr>"

text \<open>\<open>net.ParseIP\<close> parses like \<open>netip.ParseAddr\<close> and refuses zones.\<close>

definition ParseIP :: "string \<Rightarrow> addr option" where
  "ParseIP s = (case ParseAddr s of None \<Rightarrow> None | Some a \<Rightarrow> if has_zone a then None else Some a)"

definition punch_target :: "pb_candidate \<Rightarrow> addr_port option" where
  "punch_target c =
     (if pb_Ip c = [] \<or> pb_Port c = 0 \<or> pb_Port c > 65535 then None
      else map_option (\<lambda>ip. (ip, ucast (pb_Port c))) (ParseIP (pb_Ip c)))"

fun punch_loop :: "'e netlib \<Rightarrow> nat \<Rightarrow> pb_candidate list \<Rightarrow> ('e, 'm, unit) io" where
  "punch_loop N t [] = State_Monad.return ()"
| "punch_loop N t (c # cs) = (case punch_target c of
       None \<Rightarrow> punch_loop N t cs
     | Some a \<Rightarrow> do { _ \<leftarrow> WriteTo_io N t [0] a; punch_loop N t cs })"

definition warmupPunch :: "'e netlib \<Rightarrow> pb_candidate list \<Rightarrow> ('e, 's, unit) sio" where
  "warmupPunch N cands = do {
     d \<leftarrow> get ss_dialer;
     case d of
       Some (SharedTransport t) \<Rightarrow> punch_loop N t cands
     | _ \<Rightarrow> State_Monad.return ()
   }"

section \<open>Pending answers\<close>

text \<open>Writing to the nil map panics; \<open>Promote\<close> checks for it first.\<close>

definition registerAnswerWaiter :: "uint64 \<Rightarrow> ('e, 's, go_error + nat) sio" where
  "registerAnswerWaiter i = do {
     ch \<leftarrow> obs next_buf;
     upd (\<lambda>w. w\<lparr>answer_buf := (answer_buf w)(ch := None), next_buf := ch + 1\<rparr>);
     m \<leftarrow> get ss_pendingAnswers;
     case m of
       None \<Rightarrow> State_Monad.return (Inl (Panic ''assignment to entry in nil map''))
     | Some f \<Rightarrow> do {
         put_sess (\<lambda>s. s\<lparr>ss_pendingAnswers := Some (f(i \<mapsto> ch))\<rparr>);
         State_Monad.return (Inr ch)
       }
   }"

definition deliverAnswer :: "candidate_set \<Rightarrow> ('e, 's, unit) sio" where
  "deliverAnswer a = do {
     r \<leftarrow> get (\<lambda>s. waiter (ss_pendingAnswers s) (cs_StreamId a));
     put_sess (\<lambda>s. s\<lparr>ss_pendingAnswers :=
       map_option (\<lambda>m. m(cs_StreamId a := None)) (ss_pendingAnswers s)\<rparr>);
     case r of
       None \<Rightarrow> State_Monad.return ()
     | Some ch \<Rightarrow> upd (\<lambda>w. if answer_buf w ch = None then w\<lparr>answer_buf := (answer_buf w)(ch := Some a)\<rparr> else w)
   }"

section \<open>The reader\<close>

text \<open>
  One frame.  The result is false when the message does not decode: the code then
  goes on to the next frame without looking at the context.
\<close>

definition dispatch :: "'e netlib \<Rightarrow> orp_lib \<Rightarrow> 's resume_lib \<Rightarrow> frame \<Rightarrow> ('e, 's, bool) sio" where
  "dispatch N L R f = (case f_Type f of
       FtCandidateAnswer \<Rightarrow> (case um_CandidateAnswer L f of
           Inl _ \<Rightarrow> State_Monad.return False
         | Inr a \<Rightarrow> do { deliverAnswer a; State_Monad.return True })
     | FtCandidateOffer \<Rightarrow> (case um_CandidateOffer L f of
           Inl _ \<Rightarrow> State_Monad.return False
         | Inr off \<Rightarrow> do {
             ans \<leftarrow> get (AnswerOffer off);
             _ \<leftarrow> writeCtrl N FtCandidateAnswer (MCandidateAnswer ans);
             warmupPunch N (cs_Candidates off);
             State_Monad.return True
           })
     | FtStreamCheckpoint \<Rightarrow> (case um_StreamCheckpoint L f of
           Inl _ \<Rightarrow> State_Monad.return False
         | Inr cp \<Rightarrow> do { applyCheckpoint R cp; State_Monad.return True })
     | FtAllocGranted \<Rightarrow> (case um_AllocGranted L f of
           Inl _ \<Rightarrow> State_Monad.return False
         | Inr g \<Rightarrow> do { deliverMode (g_StreamId g) (Some g); State_Monad.return True })
     | FtStreamReady \<Rightarrow> (case um_StreamReady L f of
           Inl _ \<Rightarrow> State_Monad.return False
         | Inr i \<Rightarrow> do { deliverMode i None; State_Monad.return True })
     | _ \<Rightarrow> State_Monad.return True)"

text \<open>
  The loop, over what the poll of the context at the end of each iteration yields;
  the result says whether the reader has stopped.
\<close>

fun controlReader :: "'e netlib \<Rightarrow> orp_lib \<Rightarrow> 's resume_lib \<Rightarrow> bool list \<Rightarrow> ('e, 's, bool) sio" where
  "controlReader N L R [] = State_Monad.return False"
| "controlReader N L R (ctxDone # polls) = do {
     ctrl \<leftarrow> get ss_ctrl;
     p \<leftarrow> ParseFrame_io N ctrl;
     case p of
       Inl _ \<Rightarrow> State_Monad.return True
     | Inr f \<Rightarrow> do {
         decoded \<leftarrow> dispatch N L R f;
         if decoded \<and> ctxDone then State_Monad.return True else controlReader N L R polls
       }
   }"

section \<open>What an offer triggers\<close>

lemma punch_loop_run:
  "\<exists>e. run_state (punch_loop N t cs) w
     = ((), w\<lparr>env := e, trace := trace w @ map (EvPunch t [0]) (List.map_filter punch_target cs)\<rparr>)"
proof (induction cs arbitrary: w)
  case Nil
  then show ?case by (auto simp: run_simps map_filter_simps intro: exI [of _ "env w"])
next
  case (Cons c cs)
  show ?case
  proof (cases "punch_target c")
    case None
    then show ?thesis using Cons.IH [of w] by (simp add: map_filter_simps)
  next
    case (Some a)
    then show ?thesis
      using Cons.IH [of "w\<lparr>env := snd (nl_WriteTo N t [0] a (env w)), trace := trace w @ [EvPunch t [0] a]\<rparr>"]
      by (simp add: run_simps map_filter_simps)
  qed
qed

text \<open>A candidate the peer can be punched at: a zone-free address and a port.\<close>

definition punchable :: "candidate \<Rightarrow> bool" where
  "punchable c \<longleftrightarrow> valid_cand c \<and> \<not> has_zone (fst (Addr c)) \<and> snd (Addr c) \<noteq> 0"

lemma port_word:
  fixes p :: uint16
  shows "ucast (ucast p :: uint32) = p" "\<not> 65535 < (ucast p :: uint32)" "(ucast p :: uint32) = 0 \<longleftrightarrow> p = 0"
proof -
  have "unat p < 2 ^ 16" using unsigned_less [of p] by simp
  then have u: "unat (ucast p :: uint32) = unat p"
    by (simp add: unsigned_ucast_eq take_bit_nat_eq_self)
  then show "\<not> 65535 < (ucast p :: uint32)"
    using \<open>unat p < 2 ^ 16\<close> by (simp add: word_less_nat_alt)
  show "(ucast p :: uint32) = 0 \<longleftrightarrow> p = 0"
    using u unat_eq_zero [of p] unat_eq_zero [of "ucast p :: uint32"] by auto
  show "ucast (ucast p :: uint32) = p" by (rule bit_word_eqI) (simp add: bit_ucast_iff)
qed

lemma punch_target_toPBOne: "punch_target (toPBOne c) = (if punchable c then Some (Addr c) else None)"
proof -
  obtain a p where ap: "Addr c = (a, p)" by fastforce
  show ?thesis
  proof (cases "valid_cand c")
    case True
    then have "ParseAddr (String a) = Some a" using ParseAddr_String ap by (simp add: valid_cand_def)
    moreover from this have "String a \<noteq> []" by (auto simp: ParseAddr_def)
    ultimately show ?thesis using True ap port_word [of p]
      by (simp add: punch_target_def toPBOne_def punchable_def ParseIP_def)
  next
    case False
    then have "a = AddrZero" using ap by (simp add: valid_cand_def IsValid_def)
    then show ?thesis using False ap ParseAddr_invalid
      by (simp add: punch_target_def toPBOne_def punchable_def ParseIP_def)
  qed
qed

lemma punch_targets: "List.map_filter punch_target (toPB cs) = map Addr (filter punchable cs)"
  by (induction cs) (simp_all add: toPB_def map_filter_simps punch_target_toPBOne)

text \<open>
  C31. An offer is answered at once and from the right place: for a decoded offer the
  reader writes one answer on the session's current control stream, with the offer's
  identifier and all candidates registered with the session; then, on a shared
  socket, it sends one datagram to each punchable candidate of the offer, in order
  and to exactly the address and port the peer meant, and without a shared socket
  none.  Session, streams and waiters stay as they were.
\<close>

theorem offer_answered:
  assumes "f_Type f = FtCandidateOffer" and "um_CandidateOffer L f = Inr off"
    and "cs_Candidates off = toPB cs"
  shows "\<exists>w' ok. run_state (dispatch N L R f) w = (True, w')
    \<and> trace w' = trace w
        @ [EvWriteFrame (ss_ctrl (sess w)) FtCandidateAnswer
             (MCandidateAnswer \<lparr>cs_StreamId = cs_StreamId off, cs_Candidates = ss_localCandidates (sess w)\<rparr>) ok]
        @ (case ss_dialer (sess w) of
             Some (SharedTransport t) \<Rightarrow> map (EvPunch t [0]) (map Addr (filter punchable cs))
           | _ \<Rightarrow> [])
    \<and> sess w' = sess w \<and> objs w' = objs w \<and> mode_buf w' = mode_buf w \<and> answer_buf w' = answer_buf w"
proof -
  let ?ans = "\<lparr>cs_StreamId = cs_StreamId off, cs_Candidates = ss_localCandidates (sess w)\<rparr>"
  let ?r = "nl_WriteFrame N (ss_ctrl (sess w)) FtCandidateAnswer (MCandidateAnswer ?ans) (env w)"
  let ?w1 = "w\<lparr>env := snd ?r, trace := trace w @
    [EvWriteFrame (ss_ctrl (sess w)) FtCandidateAnswer (MCandidateAnswer ?ans) (fst ?r = None)]\<rparr>"
  have run: "run_state (dispatch N L R f) w = (True, snd (run_state (warmupPunch N (toPB cs)) ?w1))"
    using assms by (simp add: dispatch_def writeCtrl_def AnswerOffer_def run_simps split: prod.split)
  show ?thesis
  proof (cases "\<exists>t. ss_dialer (sess w) = Some (SharedTransport t)")
    case True
    then obtain t where t: "ss_dialer (sess w) = Some (SharedTransport t)" by blast
    with punch_loop_run [of N t "toPB cs" ?w1] show ?thesis
      unfolding run by (auto simp: warmupPunch_def run_simps punch_targets)
  next
    case False
    then show ?thesis
      unfolding run by (auto simp: warmupPunch_def run_simps split: option.splits dialer.splits)
  qed
qed

definition offer_orp :: orp_lib where
  "offer_orp = scripted_orp\<lparr>um_CandidateOffer :=
     expect FtCandidateOffer (\<lambda>f. \<lparr>cs_StreamId = 7, cs_Candidates = toPB [cand1, cand2]\<rparr>)\<rparr>"

definition shared_world :: "(script, ring_view) sworld" where
  "shared_world = start_sworld idle_script
     ((new_session 1 2 ''u'' (SharedTransport 4))\<lparr>ss_localCandidates := [toPBOne cand1]\<rparr>)"

theorem offer_answered_witness:
  "\<exists>w' ok. run_state (dispatch scripted offer_orp (list_ring 8) \<lparr>f_Type = FtCandidateOffer, f_Payload = []\<rparr>) shared_world
      = (True, w')
    \<and> trace w' = [EvWriteFrame 2 FtCandidateAnswer (MCandidateAnswer \<lparr>cs_StreamId = 7, cs_Candidates = [toPBOne cand1]\<rparr>) ok,
        EvPunch 4 [0] (Addr cand1), EvPunch 4 [0] (Addr cand2)]"
proof -
  have "punchable cand1" "punchable cand2"
    by (simp_all add: punchable_def valid_cand_def cand_simps) (simp_all add: cand1_def cand2_def)
  then show ?thesis
    using offer_answered [of "\<lparr>f_Type = FtCandidateOffer, f_Payload = []\<rparr>" offer_orp
        "\<lparr>cs_StreamId = 7, cs_Candidates = toPB [cand1, cand2]\<rparr>" "[cand1, cand2]" scripted "list_ring 8" shared_world]
    by (auto simp: offer_orp_def expect_def shared_world_def start_sworld_def new_session_def)
qed

section \<open>Checkpoints keep what the peer still needs\<close>

text \<open>
  C32. A checkpoint never discards a byte that may still have to be sent again: when
  the peer's own wrapper reports its position and the report is applied here, then
  from that position or any later one the peer may have reached, the retransmission
  is still available and is exactly the rest of what was written.  No other wrapper
  is touched, and a checkpoint for a stream that is not active changes nothing.
\<close>

theorem checkpoint_keeps_gap:
  assumes "resume_contract R view"
    and "ss_streams (sess w) (rs_ID peer) = Some ref" and "objs w ref = Some rs"
    and "evicted (view (rs_state rs)) \<le> read_count (view (rs_state peer))"
    and "read_count (view (rs_state peer)) \<le> n" and "n \<le> length (written_bytes (view (rs_state rs)))"
    and "n < 2 ^ 64"
  shows "\<exists>w' rs'. run_state (applyCheckpoint R (checkpoint_of R peer)) w = ((), w') \<and> objs w' ref = Some rs'
    \<and> rl_RetransmitFrom R (of_nat n) (rs_state rs') = Inr (drop n (written_bytes (view (rs_state rs))))
    \<and> (\<forall>r. r \<noteq> ref \<longrightarrow> objs w' r = objs w r) \<and> sess w' = sess w
    \<and> (\<forall>cp. ss_streams (sess w) (cp_StreamId cp) = None \<longrightarrow> run_state (applyCheckpoint R cp) w = ((), w))"
proof -
  let ?k = "cp_PeerAckPosition (checkpoint_of R peer)"
  let ?s = "rl_OnCheckpoint R ?k (rs_state rs)"
  have k: "unat ?k = read_count (view (rs_state peer))"
    using assms(5,7) resume_contractD(11) [OF assms(1)]
    by (simp add: checkpoint_of_def unat_of_nat take_bit_nat_eq_self)
  have n: "unat (of_nat n :: uint64) = n" using assms(7) by (simp add: unat_of_nat take_bit_nat_eq_self)
  have "evicted (view ?s) \<le> n"
    using resume_contractD(15) [OF assms(1), of ?k "rs_state rs"] assms(4,5) k by simp
  then have "rl_RetransmitFrom R (of_nat n) ?s = Inr (drop n (written_bytes (view (rs_state rs))))"
    using resume_contractD(13) [OF assms(1), of ?s "of_nat n"] resume_contractD(8) [OF assms(1)] assms(6) n by simp
  then show ?thesis
    using assms(2,3) by (simp add: applyCheckpoint_def run_simps checkpoint_of_def)
qed

theorem checkpoint_keeps_gap_witness:
  "\<exists>w' rs'. run_state (applyCheckpoint (list_ring 8) (checkpoint_of (list_ring 8) read1))
       (resume_world\<lparr>sess := (sess resume_world)\<lparr>ss_streams := [7 \<mapsto> 0]\<rparr>\<rparr>) = ((), w')
     \<and> objs w' 0 = Some rs' \<and> rl_RetransmitFrom (list_ring 8) 2 (rs_state rs') = Inr [3]"
proof -
  let ?w = "resume_world\<lparr>sess := (sess resume_world)\<lparr>ss_streams := [7 \<mapsto> 0]\<rparr>\<rparr>"
  have "ss_streams (sess ?w) (rs_ID read1) = Some 0" "objs ?w 0 = Some wrote3"
    by (simp_all add: read1_def wrote3_def resume_world_def)
  from checkpoint_keeps_gap [OF list_ring_contract [of 8] this, of 2]
  show ?thesis by (auto simp: read1_def wrote3_def ring_norm_def)
qed

end
