(* ===== verification/Waiters.thy ===== *)
theory Waiters
  imports Control
begin

text \<open>
  The two tables of one-shot waiters of a session: the pending answers
  (\<open>registerAnswerWaiter\<close>, \<open>deliverAnswer\<close>) and the pending stream modes
  (\<open>RegisterStreamModeWaiter\<close>, \<open>CancelStreamModeWaiter\<close>, \<open>deliverMode\<close>,
  \<open>WaitForStreamMode\<close>).  Their common contract is the locale \<open>waiter_table\<close>; what a
  waiting goroutine can rely on is proved there once and used for both.
\<close>

section \<open>The contract\<close>

text \<open>What happens at a table while somebody waits: deliveries and registrations.\<close>

datatype 'n waiter_op = Deliver uint64 'n | Register uint64

fun first_delivery :: "uint64 \<Rightarrow> 'n waiter_op list \<Rightarrow> 'n option" where
  "first_delivery i [] = None"
| "first_delivery i (Deliver j n # ops) = (if j = i then Some n else first_delivery i ops)"
| "first_delivery i (Register j # ops) = first_delivery i ops"

text \<open>
  A table maps an identifier to the channel of its waiter; a channel holds at most
  one value.  New channels are fresh.
\<close>

locale waiter_table =
  fixes entry :: "'w \<Rightarrow> uint64 \<Rightarrow> nat option"
    and held :: "'w \<Rightarrow> nat \<Rightarrow> 'n option"
    and fresh :: "'w \<Rightarrow> nat"
    and ready :: "'w \<Rightarrow> bool"
    and reg :: "uint64 \<Rightarrow> 'w \<Rightarrow> 'w"
    and deliver :: "uint64 \<Rightarrow> 'n \<Rightarrow> 'w \<Rightarrow> 'w"
  assumes reg_entry: "ready w \<Longrightarrow> entry (reg i w) = (entry w)(i \<mapsto> fresh w)"
    and reg_held: "ready w \<Longrightarrow> held (reg i w) = (held w)(fresh w := None)"
    and reg_fresh: "ready w \<Longrightarrow> fresh (reg i w) = Suc (fresh w)"
    and reg_ready: "ready w \<Longrightarrow> ready (reg i w)"
    and deliver_empty: "entry w i = Some ch \<Longrightarrow> held w ch = None \<Longrightarrow> held (deliver i n w) ch = Some n"
    and deliver_other: "entry w i \<noteq> Some ch \<or> held w ch \<noteq> None \<Longrightarrow> held (deliver i n w) ch = held w ch"
    and deliver_entry: "entry (deliver i n w) j = entry w j \<or> i = j \<and> entry (deliver i n w) j = None"
    and deliver_fresh: "fresh (deliver i n w) = fresh w"
    and deliver_ready: "ready w \<Longrightarrow> ready (deliver i n w)"
begin

fun apply_op :: "'n waiter_op \<Rightarrow> 'w \<Rightarrow> 'w" where
  "apply_op (Deliver i n) w = deliver i n w"
| "apply_op (Register i) w = reg i w"

text \<open>Channels in use are distinct and older than the next one.\<close>

definition table_ok :: "'w \<Rightarrow> bool" where
  "table_ok w \<longleftrightarrow> ready w \<and> (\<forall>i ch. entry w i = Some ch \<longrightarrow> ch < fresh w) \<and>
     (\<forall>i j ch. entry w i = Some ch \<longrightarrow> entry w j = Some ch \<longrightarrow> i = j)"

lemma table_ok_deliver: "table_ok w \<Longrightarrow> table_ok (deliver i n w)"
proof -
  assume ok: "table_ok w"
  have old: "entry w j = Some ch" if "entry (deliver i n w) j = Some ch" for j ch
    using deliver_entry [of i n w j] that by auto
  show ?thesis unfolding table_ok_def deliver_fresh
  proof (intro conjI allI impI)
    show "ready (deliver i n w)" using ok deliver_ready by (simp add: table_ok_def)
    show "ch < fresh w" if "entry (deliver i n w) j = Some ch" for j ch
      using old [OF that] ok by (simp add: table_ok_def)
    show "j = k" if "entry (deliver i n w) j = Some ch" "entry (deliver i n w) k = Some ch" for j k ch
      using old [OF that(1)] old [OF that(2)] ok unfolding table_ok_def by blast
  qed
qed

lemma table_ok_reg:
  assumes "table_ok w"
  shows "table_ok (reg i w)"
proof -
  have r: "ready w" and lt: "\<And>j ch. entry w j = Some ch \<Longrightarrow> ch < fresh w"
    and inj: "\<And>j k ch. entry w j = Some ch \<Longrightarrow> entry w k = Some ch \<Longrightarrow> j = k"
    using assms unfolding table_ok_def by blast+
  have "ch < Suc (fresh w)" if "((entry w)(i \<mapsto> fresh w)) j = Some ch" for j ch
    using that lt [of j ch] by (auto split: if_splits)
  moreover have "j = k" if "((entry w)(i \<mapsto> fresh w)) j = Some ch" "((entry w)(i \<mapsto> fresh w)) k = Some ch" for j k ch
    using that lt [of j ch] lt [of k ch] inj [of j ch k] by (auto split: if_splits)
  ultimately show ?thesis
    unfolding table_ok_def using reg_entry [OF r] reg_fresh [OF r] reg_ready [OF r] by metis
qed

lemma table_ok_ops: "table_ok w \<Longrightarrow> table_ok (fold apply_op ops w)"
proof (induction ops arbitrary: w)
  case (Cons x ops)
  then show ?case by (cases x) (simp_all add: table_ok_deliver table_ok_reg)
qed simp

text \<open>A goroutine waits on its own channel.\<close>

definition waits :: "uint64 \<Rightarrow> nat \<Rightarrow> 'w \<Rightarrow> bool" where
  "waits i ch w \<longleftrightarrow> table_ok w \<and> ch < fresh w \<and> (entry w i = Some ch \<or> held w ch \<noteq> None)
     \<and> (\<forall>j. entry w j = Some ch \<longrightarrow> j = i)"

lemma waits_deliver:
  assumes "waits i ch w"
  shows "waits i ch (deliver j n w)
    \<and> held (deliver j n w) ch = (case held w ch of Some m \<Rightarrow> Some m | None \<Rightarrow> if j = i then Some n else None)"
proof -
  have ok: "table_ok w" and lt: "ch < fresh w" and own: "entry w i = Some ch \<or> held w ch \<noteq> None"
    and only: "\<And>k. entry w k = Some ch \<Longrightarrow> k = i"
    using assms unfolding waits_def by blast+
  have only': "k = i" if "entry (deliver j n w) k = Some ch" for k
    using that deliver_entry [of j n w k] only [of k] by auto
  have val: "held (deliver j n w) ch
      = (case held w ch of Some m \<Rightarrow> Some m | None \<Rightarrow> if j = i then Some n else None)"
  proof (cases "held w ch = None \<and> j = i")
    case True
    then show ?thesis using own deliver_empty [of w i ch n] by simp
  next
    case False
    then have "entry w j \<noteq> Some ch \<or> held w ch \<noteq> None" using only [of j] by auto
    then show ?thesis using deliver_other [of w j ch n] False by (auto split: option.split)
  qed
  have "entry (deliver j n w) i = Some ch \<or> held (deliver j n w) ch \<noteq> None"
  proof (cases "held w ch = None \<and> j \<noteq> i")
    case True
    then show ?thesis using own deliver_entry [of j n w i] by simp
  next
    case False
    then show ?thesis using val by (auto split: option.splits)
  qed
  with ok lt only' val show ?thesis
    by (simp add: waits_def table_ok_deliver deliver_fresh)
qed

lemma waits_reg:
  assumes "waits i ch w" and "j \<noteq> i"
  shows "waits i ch (reg j w) \<and> held (reg j w) ch = held w ch"
proof -
  note w = assms(1) [unfolded waits_def]
  have r: "ready w" using w by (simp add: table_ok_def)
  show ?thesis
    unfolding waits_def reg_entry [OF r] reg_held [OF r] reg_fresh [OF r]
    using w assms(2) table_ok_reg [of w j] by auto
qed

text \<open>
  Whatever is delivered to others or registered by others, the waiter's channel ends
  up with the first value delivered to it.
\<close>

lemma first_delivery_wins:
  assumes "waits i ch w" and "Register i \<notin> set ops"
  shows "waits i ch (fold apply_op ops w) \<and>
    held (fold apply_op ops w) ch = (case held w ch of Some m \<Rightarrow> Some m | None \<Rightarrow> first_delivery i ops)"
  using assms
proof (induction ops arbitrary: w)
  case Nil
  then show ?case by (simp split: option.split)
next
  case (Cons x ops)
  show ?case
  proof (cases x)
    case (Deliver j n)
    then show ?thesis
      using Cons.IH [of "deliver j n w"] waits_deliver [OF Cons.prems(1), of j n] Cons.prems(2)
      by (auto split: option.splits)
  next
    case (Register j)
    then have "j \<noteq> i" using Cons.prems(2) by auto
    from waits_reg [OF Cons.prems(1) this] Cons.IH [of "reg j w"] Cons.prems(2)
    show ?thesis unfolding Register by (simp split: option.splits)
  qed
qed

lemma registered_waits:
  assumes "table_ok w"
  shows "waits i (fresh w) (reg i w) \<and> held (reg i w) (fresh w) = None"
proof -
  have r: "ready w" using assms by (simp add: table_ok_def)
  have "entry w j \<noteq> Some (fresh w)" for j using assms by (auto simp: table_ok_def)
  then show ?thesis
    unfolding waits_def reg_entry [OF r] reg_held [OF r] reg_fresh [OF r]
    using table_ok_reg [OF assms] by auto
qed

lemma waits_same:
  "waits i ch w \<Longrightarrow> entry w' = entry w \<Longrightarrow> held w' ch = held w ch \<Longrightarrow> fresh w' = fresh w \<Longrightarrow> ready w' \<Longrightarrow>
     waits i ch w'"
  unfolding waits_def table_ok_def by presburger

lemma registered_gets_first:
  assumes "table_ok w" and "Register i \<notin> set ops"
  shows "held (fold apply_op ops (reg i w)) (fresh w) = first_delivery i ops"
  using first_delivery_wins [of i "fresh w" "reg i w" ops] registered_waits [OF assms(1)] assms(2) by simp

end

text \<open>A table whose entries can also be taken back.\<close>

locale cancellable_table = waiter_table +
  fixes cancel :: "uint64 \<Rightarrow> 'a \<Rightarrow> 'a"
  assumes cancel_entry: "entry (cancel i w) = (entry w)(i := None)"
    and cancel_fresh: "fresh (cancel i w) = fresh w"
    and cancel_ready: "ready (cancel i w) = ready w"
begin

lemma cancel_undoes:
  assumes "ready w" and "entry w i = None"
  shows "entry (cancel i (reg i w)) = entry w"
  using assms by (auto simp: cancel_entry reg_entry)

lemma table_ok_cancel: "table_ok w \<Longrightarrow> table_ok (cancel i w)"
  unfolding table_ok_def cancel_entry cancel_fresh cancel_ready by (auto split: if_splits)

end

section \<open>The two tables\<close>

definition mode_entry :: "('e, 's) sworld \<Rightarrow> uint64 \<Rightarrow> nat option" where
  "mode_entry w = waiter (ss_pendingMode (sess w))"

definition answer_entry :: "('e, 's) sworld \<Rightarrow> uint64 \<Rightarrow> nat option" where
  "answer_entry w = waiter (ss_pendingAnswers (sess w))"

definition answer_held :: "('e, 's) sworld \<Rightarrow> nat \<Rightarrow> pb_candidate list option" where
  "answer_held w ch = map_option cs_Candidates (answer_buf w ch)"

definition after :: "('e, 's, 'a) sio \<Rightarrow> ('e, 's) sworld \<Rightarrow> ('e, 's) sworld" where
  "after m w = snd (run_state m w)"

lemmas waiter_defs = mode_entry_def answer_entry_def answer_held_def after_def waiter_def
  RegisterStreamModeWaiter_def CancelStreamModeWaiter_def deliverMode_def registerAnswerWaiter_def
  deliverAnswer_def

lemma mode_after:
  "mode_entry (after (RegisterStreamModeWaiter i) w) = (mode_entry w)(i \<mapsto> next_buf w)"
  "mode_buf (after (RegisterStreamModeWaiter i) w) = (mode_buf w)(next_buf w := None)"
  "next_buf (after (RegisterStreamModeWaiter i) w) = Suc (next_buf w)"
  "mode_entry (after (deliverMode i n) w) = mode_entry w"
  "mode_buf (after (deliverMode i n) w) ch =
     (if mode_entry w i = Some ch \<and> mode_buf w ch = None then Some n else mode_buf w ch)"
  "next_buf (after (deliverMode i n) w) = next_buf w"
  "mode_entry (after (CancelStreamModeWaiter i) w) = (mode_entry w)(i := None)"
  "next_buf (after (CancelStreamModeWaiter i) w) = next_buf w"
  by (cases "ss_pendingMode (sess w)"; force simp: waiter_defs run_simps split: option.split)+

lemma answer_after:
  "ss_pendingAnswers (sess w) \<noteq> None \<Longrightarrow>
     answer_entry (after (registerAnswerWaiter i) w) = (answer_entry w)(i \<mapsto> next_buf w)"
  "answer_held (after (registerAnswerWaiter i) w) = (answer_held w)(next_buf w := None)"
  "next_buf (after (registerAnswerWaiter i) w) = Suc (next_buf w)"
  "ss_pendingAnswers (sess w) \<noteq> None \<Longrightarrow> ss_pendingAnswers (sess (after (registerAnswerWaiter i) w)) \<noteq> None"
  "answer_entry (after (deliverAnswer a) w) = (answer_entry w)(cs_StreamId a := None)"
  "answer_held (after (deliverAnswer a) w) ch =
     (if answer_entry w (cs_StreamId a) = Some ch \<and> answer_held w ch = None then Some (cs_Candidates a)
      else answer_held w ch)"
  "next_buf (after (deliverAnswer a) w) = next_buf w"
  "ss_pendingAnswers (sess w) \<noteq> None \<Longrightarrow> ss_pendingAnswers (sess (after (deliverAnswer a) w)) \<noteq> None"
  by (cases "ss_pendingAnswers (sess w)"; force simp: waiter_defs run_simps split: option.split)+

interpretation mw: cancellable_table mode_entry mode_buf next_buf "\<lambda>_. True"
  "\<lambda>i. after (RegisterStreamModeWaiter i)" "\<lambda>i n. after (deliverMode i n)" "\<lambda>i. after (CancelStreamModeWaiter i)"
  by unfold_locales (auto simp: mode_after)

interpretation aw: waiter_table answer_entry answer_held next_buf "\<lambda>w. ss_pendingAnswers (sess w) \<noteq> None"
  "\<lambda>i. after (registerAnswerWaiter i)" "\<lambda>i cs. after (deliverAnswer \<lparr>cs_StreamId = i, cs_Candidates = cs\<rparr>)"
  by unfold_locales (simp_all add: answer_after)

section \<open>The stream mode\<close>

definition waiters_ok :: "('e, 's) sworld \<Rightarrow> bool" where
  "waiters_ok w \<longleftrightarrow> (\<forall>i ch. mode_entry w i = Some ch \<longrightarrow> ch < next_buf w) \<and>
     (\<forall>i j ch. mode_entry w i = Some ch \<longrightarrow> mode_entry w j = Some ch \<longrightarrow> i = j)"

fun mode_op :: "alloc_granted option waiter_op \<Rightarrow> ('e, 's) sworld \<Rightarrow> ('e, 's) sworld" where
  "mode_op (Deliver i n) w = after (deliverMode i n) w"
| "mode_op (Register i) w = after (RegisterStreamModeWaiter i) w"

lemma waiters_ok_table: "waiters_ok w = mw.table_ok w"
  by (simp add: waiters_ok_def mw.table_ok_def)

lemma mode_op_apply: "mode_op = mw.apply_op"
proof (intro ext)
  show "mode_op x w = mw.apply_op x w" for x and w :: "('a, 'b) sworld" by (cases x) simp_all
qed

text \<open>A waiting stream keeps its entry while others come and go.\<close>

lemma mode_ops_entry:
  "Register i \<notin> set ops \<Longrightarrow> mode_entry (fold mode_op ops w) i = mode_entry w i"
proof (induction ops arbitrary: w)
  case (Cons x ops)
  then show ?case by (cases x) (auto simp: mode_after)
qed simp

lemma WaitForStreamMode_run:
  assumes "mode_entry w i = Some ch"
  shows "fst (run_state (WaitForStreamMode late i) w)
      = (case mode_buf w ch of Some g \<Rightarrow> g | None \<Rightarrow> (case late of Some g \<Rightarrow> g | None \<Rightarrow> None))"
    and "mode_entry (snd (run_state (WaitForStreamMode late i) w)) = (mode_entry w)(i := None)"
  using assms by (auto simp: WaitForStreamMode_def CancelStreamModeWaiter_def mode_entry_def waiter_def run_simps
      intro!: ext split: option.splits)

lemma mode_wait:
  assumes "mw.waits i ch w" and "mode_entry w i = Some ch" and "mode_buf w ch = None" and "Register i \<notin> set ops"
  shows "fst (run_state (WaitForStreamMode late i) (fold mode_op ops w))
      = (case first_delivery i ops of Some g \<Rightarrow> g | None \<Rightarrow> (case late of Some g \<Rightarrow> g | None \<Rightarrow> None))"
    and "mode_entry (snd (run_state (WaitForStreamMode late i) (fold mode_op ops w))) i = None"
proof -
  have entry: "mode_entry (fold mode_op ops w) i = Some ch" using mode_ops_entry [OF assms(4), of w] assms(2) by simp
  have held: "mode_buf (fold mode_op ops w) ch = first_delivery i ops"
    using mw.first_delivery_wins [OF assms(1,4)] assms(3) by (simp add: mode_op_apply)
  show "fst (run_state (WaitForStreamMode late i) (fold mode_op ops w))
      = (case first_delivery i ops of Some g \<Rightarrow> g | None \<Rightarrow> (case late of Some g \<Rightarrow> g | None \<Rightarrow> None))"
    using WaitForStreamMode_run(1) [OF entry, of late] held by simp
  show "mode_entry (snd (run_state (WaitForStreamMode late i) (fold mode_op ops w))) i = None"
    using WaitForStreamMode_run(2) [OF entry, of late] by simp
qed

text \<open>Opening a stream with the reader on registers exactly one waiter, for the stream's identifier.\<close>

lemma Dial_stream_registers:
  assumes "run_state (Dial_stream N R ids target meth) w = (Some (Inr ref), w1)" and "ss_p2pEnabled (sess w)"
    and "objs w1 ref = Some rs"
  shows "mode_entry w1 = (mode_entry w)(rs_ID rs \<mapsto> next_buf w)" "next_buf w1 = Suc (next_buf w)"
    "mode_buf w1 (next_buf w) = None"
  using assms
  by (auto simp: Dial_stream_def run_simps RegisterStreamModeWaiter_def wrapStream_def mode_entry_def waiter_def
      intro!: ext split: option.splits sum.splits prod.splits)


definition enabled_world :: "(script, ring_view) sworld" where
  "enabled_world = start_sworld (idle_script\<lparr>sc_opens := [Inr 3]\<rparr>)
     (sample_session\<lparr>ss_p2pEnabled := True, ss_pendingMode := Some Map.empty, ss_pendingAnswers := Some Map.empty\<rparr>)"

definition grant5 :: alloc_granted where
  "grant5 = \<lparr>g_StreamId = 5, g_MyAllocation = 1, g_PeerAllocation = 2, g_ForwardEndpoint = ''10.0.0.1:7446''\<rparr>"

lemma enabled_world_dial:
  "\<exists>w1. run_state (Dial_stream scripted (list_ring 8) (\<lambda>k. 5) ''svc'' []) enabled_world = (Some (Inr 0), w1)
     \<and> map_option rs_ID (objs w1 0) = Some 5"
  by (simp add: Dial_stream_def run_simps enabled_world_def start_sworld_def sample_session_def new_session_def
      script_defs freshStreamID.simps RegisterStreamModeWaiter_def wrapStream_def)


end
