(* ===== verification/Promotion.thy ===== *)
theory Promotion
  imports Waiters
begin

text \<open>
  Promotion of a stream to a direct path (\<open>pkg/session/promote.go\<close>): \<open>Promote\<close> drives the
  handshake of \<open>p2p.Promoter\<close> over the control stream, \<open>MigrateToDirect\<close> moves the
  initiator's wrapper, \<open>AcceptDirect\<close> and \<open>handleDirectStream\<close> are the responder's side.
\<close>

section \<open>Promote\<close>

text \<open>
  The \<open>RecvAnswer\<close> hook.  \<open>others\<close> is what the other goroutines do until the \<open>select\<close>
  fires, \<open>cerr\<close> the error of the context if it ends, and \<open>pick\<close> whether the ended
  context wins over an answer that is also there.
\<close>

definition recv_answer ::
  "('e, 's, unit) sio \<Rightarrow> go_error \<Rightarrow> bool \<Rightarrow> nat \<Rightarrow> ('e, 's, go_error + candidate_set option) sio" where
  "recv_answer others cerr pick ch = do {
     others;
     b \<leftarrow> obs (\<lambda>w. answer_buf w ch);
     case b of
       None \<Rightarrow> State_Monad.return (Inl cerr)
     | Some a \<Rightarrow>
         if pick then State_Monad.return (Inl cerr)
         else do {
           upd (\<lambda>w. w\<lparr>answer_buf := (answer_buf w)(ch := None)\<rparr>);
           State_Monad.return (Inr (Some a))
         }
   }"

definition promote_locals ::
  "(go_error + iface_addr list) \<Rightarrow> candidate list \<Rightarrow> uint16 \<Rightarrow> session \<Rightarrow> candidate list" where
  "promote_locals ifaces opts hostPort s =
     (if opts \<noteq> [] then opts
      else if ss_localCandidates s \<noteq> [] then FromPB (ss_localCandidates s)
      else HostCandidates ifaces hostPort)"

definition Promote ::
  "'e netlib \<Rightarrow> (go_error + iface_addr list) \<Rightarrow> ('e, 's, unit) sio \<Rightarrow> go_error \<Rightarrow> bool \<Rightarrow> nat option \<Rightarrow>
     engine option \<Rightarrow> candidate list \<Rightarrow> uint16 \<Rightarrow> ('e, 's, go_error + check_result) sio" where
  "Promote N ifaces others cerr pick rso engo opts hostPort = (case (rso, engo) of
       (Some ref, Some eng) \<Rightarrow> do {
         m \<leftarrow> get ss_pendingAnswers;
         if m = None then State_Monad.return (Inl (ErrorNew ''session: EnableP2P not called''))
         else do {
           o1 \<leftarrow> obs (\<lambda>w. objs w ref);
           case o1 of
             None \<Rightarrow> State_Monad.return (Inl (Panic ''nil stream''))
           | Some rs \<Rightarrow> do {
               r \<leftarrow> registerAnswerWaiter (rs_ID rs);
               case r of
                 Inl e \<Rightarrow> State_Monad.return (Inl e)
               | Inr ch \<Rightarrow> do {
                   ls \<leftarrow> get (promote_locals ifaces opts hostPort);
                   Promoter_Run N \<lparr>pr_StreamID = rs_ID rs, pr_Engine = Some eng, pr_Locals = ls,
                     SendOffer = Some (\<lambda>off. writeCtrl N FtCandidateOffer (MCandidateOffer off)),
                     RecvAnswer = Some (recv_answer others cerr pick ch),
                     SendMigrate = Some (\<lambda>i c. writeCtrl N FtMigrateToP2P (MMigrateToP2P i c))\<rparr>
                 }
             }
         }
       }
     | _ \<Rightarrow> State_Monad.return (Inl (ErrorNew ''session: nil rs or engine'')))"

text \<open>The session's guard in front of \<open>candidate.QueryServerReflexive\<close>.\<close>

definition QueryServerReflexive_session ::
  "'e netlib \<Rightarrow> orp_lib \<Rightarrow> int \<Rightarrow> srflx_sel \<Rightarrow> uint32 \<Rightarrow> uint64 \<Rightarrow> ('e, 's, go_error + candidate) sio" where
  "QueryServerReflexive_session N L timeout sel rnd ctr = do {
     enabled \<leftarrow> get ss_p2pEnabled;
     ctrl \<leftarrow> get ss_ctrl;
     if enabled then
       State_Monad.return (Inl (ErrorNew ''session: QueryServerReflexive must run before EnableP2P''))
     else QueryServerReflexive N L ctrl timeout sel rnd ctr
   }"

section \<open>The direct path\<close>

text \<open>
  The accept loops over the results of \<open>Accept\<close> (with \<open>ctx.Err\<close> at that moment) and
  \<open>AcceptStream\<close>; \<open>None\<close> and false while they still accept.
\<close>

fun AcceptDirect :: "((go_error + conn) \<times> go_error option) list \<Rightarrow> ('e, 'm, go_error option) io" where
  "AcceptDirect [] = State_Monad.return None"
| "AcceptDirect ((Inl e, ctx) # rs) = State_Monad.return
     (Some (case ctx of Some c \<Rightarrow> c | None \<Rightarrow> Wrapf ''session: accept direct'' e))"
| "AcceptDirect ((Inr c, ctx) # rs) = do { emit (EvGo (GoAcceptDirectStreams c)); AcceptDirect rs }"

fun acceptDirectStreams :: "(go_error + stream) list \<Rightarrow> ('e, 'm, bool) io" where
  "acceptDirectStreams [] = State_Monad.return False"
| "acceptDirectStreams (Inl e # rs) = State_Monad.return True"
| "acceptDirectStreams (Inr st # rs) = do { emit (EvGo (GoHandleDirectStream st)); acceptDirectStreams rs }"

definition close_quietly :: "'e netlib \<Rightarrow> stream \<Rightarrow> ('e, 'm, unit) io" where
  "close_quietly N st = do { _ \<leftarrow> Close_io N st; State_Monad.return () }"

definition handleDirectStream ::
  "'e netlib \<Rightarrow> orp_lib \<Rightarrow> 's resume_lib \<Rightarrow> stream \<Rightarrow> ('e, 's, unit) sio" where
  "handleDirectStream N L R st = do {
     p \<leftarrow> ParseFrame_io N st;
     case p of
       Inl e \<Rightarrow> close_quietly N st
     | Inr f \<Rightarrow>
         if f_Type f \<noteq> FtStreamResume then close_quietly N st
         else (case um_StreamResume L f of
             Inl e \<Rightarrow> close_quietly N st
           | Inr peer \<Rightarrow> do {
               r \<leftarrow> get (\<lambda>s. ss_streams s (sr_StreamId peer));
               case r of
                 None \<Rightarrow> close_quietly N st
               | Some ref \<Rightarrow> do {
                   o1 \<leftarrow> obs (\<lambda>w. objs w ref);
                   case o1 of
                     None \<Rightarrow> close_quietly N st
                   | Some rs \<Rightarrow> (case rl_RetransmitFrom R (sr_PeerAckPosition peer) (rs_state rs) of
                         Inl e \<Rightarrow> close_quietly N st
                       | Inr gap \<Rightarrow> do {
                           e \<leftarrow> (if gap = [] then State_Monad.return None
                                else do { w \<leftarrow> Write_io N st gap; State_Monad.return (snd w) });
                           case e of
                             Some _ \<Rightarrow> close_quietly N st
                           | None \<Rightarrow> SwapInner N ref st
                         })
                 }
             })
   }"

definition MigrateToDirect ::
  "'e netlib \<Rightarrow> 's resume_lib \<Rightarrow> nat option \<Rightarrow> conn option \<Rightarrow> ('e, 's, go_error option) sio" where
  "MigrateToDirect N R rso co = (case (rso, co) of
       (Some ref, Some c) \<Rightarrow> do {
         o1 \<leftarrow> OpenStream_io N c;
         case o1 of
           Inl e \<Rightarrow> State_Monad.return (Some (Wrapf ''session: open direct stream'' e))
         | Inr st \<Rightarrow> do {
             r \<leftarrow> obs (\<lambda>w. objs w ref);
             case r of
               None \<Rightarrow> State_Monad.return (Some (Panic ''nil stream''))
             | Some rs \<Rightarrow> do {
                 wr \<leftarrow> WriteFrame_io N st FtStreamResume (resume_frame R rs);
                 case wr of
                   Some e \<Rightarrow> do {
                     _ \<leftarrow> Close_io N st;
                     State_Monad.return (Some (Wrapf ''session: send STREAM_RESUME on direct'' e))
                   }
                 | None \<Rightarrow> do { SwapInner N ref st; State_Monad.return None }
               }
           }
       }
     | _ \<Rightarrow> State_Monad.return (Some (ErrorNew ''session: nil rs or peerConn'')))"

section \<open>Moving a stream\<close>

definition direct_events :: "'s rstream \<Rightarrow> stream \<Rightarrow> byte list \<Rightarrow> event list" where
  "direct_events rs st gap = EvParse st True # (if gap = [] then [] else [EvWrite st gap]) @ [EvCancelRead (rs_inner rs)]"

lemma handleDirectStream_run:
  assumes "run_state (handleDirectStream N L R st) w = (u, w')"
  shows "sess w' = sess w \<and> (objs w' = objs w \<and> (\<exists>b. trace w' = trace w @ b \<and> EvClose st \<in> set b)
    \<or> (\<exists>f p ref rs gap. um_StreamResume L f = Inr p \<and> ss_streams (sess w) (sr_StreamId p) = Some ref
        \<and> objs w ref = Some rs \<and> rl_RetransmitFrom R (sr_PeerAckPosition p) (rs_state rs) = Inr gap
        \<and> objs w' = (objs w)(ref \<mapsto> rs\<lparr>rs_inner := st, rs_resumeReady := Some (next_ch w)\<rparr>)
        \<and> trace w' = trace w @ direct_events rs st gap))"
  using assms
  by (auto simp: handleDirectStream_def close_quietly_def SwapInner_def run_simps direct_events_def
      split: sum.splits option.splits if_splits) blast+


text \<open>
  C34. The initiator's side does lose data: a successful \<open>MigrateToDirect\<close> moves the wrapper
  to the direct stream without retransmitting anything, so whenever the peer has
  read less than was written, what the peer had read followed by what is sent on the
  direct stream is not what was written.
\<close>

theorem MigrateToDirect_drops_gap:
  assumes "run_state (MigrateToDirect N R (Some ref) (Some c)) w = (None, w')" and "objs w ref = Some rs"
    and "n < length (written_bytes (view (rs_state rs)))"
  shows "\<exists>rs' new. objs w' ref = Some rs' \<and> rs_state rs' = rs_state rs \<and> trace w' = trace w @ new
    \<and> EvOpen c (Some (rs_inner rs')) \<in> set new
    \<and> take n (written_bytes (view (rs_state rs))) @ writes_on (rs_inner rs') new
      \<noteq> written_bytes (view (rs_state rs))"
proof -
  from assms(1,2) obtain st where "objs w' ref = Some (rs\<lparr>rs_inner := st, rs_resumeReady := Some (next_ch w)\<rparr>)"
      "trace w' = trace w @ [EvOpen c (Some st), EvWriteFrame st FtStreamResume (resume_frame R rs) True,
         EvCancelRead (rs_inner rs)]"
    by (auto simp: MigrateToDirect_def SwapInner_def run_simps split: sum.splits option.splits)
  moreover have "take n xs \<noteq> xs" if "n < length xs" for xs :: "byte list"
    using that by (simp add: take_all_iff)
  ultimately show ?thesis using assms(3) by auto
qed

definition direct_world :: "(script, ring_view) sworld" where
  "direct_world = resume_world\<lparr>sess := (sess resume_world)\<lparr>ss_streams := [7 \<mapsto> 0]\<rparr>\<rparr>"


theorem MigrateToDirect_drops_gap_witness:
  "\<exists>w' rs' new. run_state (MigrateToDirect scripted (list_ring 8) (Some 0) (Some 5)) resume_world = (None, w')
     \<and> objs w' 0 = Some rs' \<and> trace w' = trace resume_world @ new
     \<and> [1] @ writes_on (rs_inner rs') new \<noteq> [1, 2, 3]"
proof -
  obtain w' where run: "run_state (MigrateToDirect scripted (list_ring 8) (Some 0) (Some 5)) resume_world = (None, w')"
    by (simp add: MigrateToDirect_def SwapInner_def run_simps resume_world_def script_defs)
  have obj: "objs resume_world 0 = Some wrote3" by (simp add: resume_world_def)
  from MigrateToDirect_drops_gap [OF run obj, of 1 ring_norm] run
  show ?thesis by (auto simp: wrote3_def ring_norm_def)
qed

section \<open>The handshake on the control stream\<close>

definition answers_ok :: "('e, 's) sworld \<Rightarrow> bool" where
  "answers_ok w \<longleftrightarrow> ss_pendingAnswers (sess w) \<noteq> None \<and> (\<forall>i ch. answer_entry w i = Some ch \<longrightarrow> ch < next_buf w) \<and>
     (\<forall>i j ch. answer_entry w i = Some ch \<longrightarrow> answer_entry w j = Some ch \<longrightarrow> i = j)"

fun answer_op :: "pb_candidate list waiter_op \<Rightarrow> ('e, 's) sworld \<Rightarrow> ('e, 's) sworld" where
  "answer_op (Deliver i cs) w = after (deliverAnswer \<lparr>cs_StreamId = i, cs_Candidates = cs\<rparr>) w"
| "answer_op (Register i) w = after (registerAnswerWaiter i) w"

lemma answers_ok_table: "answers_ok w = aw.table_ok w"
  unfolding answers_ok_def aw.table_ok_def by (rule refl)

lemma answer_op_apply: "answer_op = aw.apply_op"
proof (intro ext)
  show "answer_op x w = aw.apply_op x w" for x and w :: "('a, 'b) sworld" by (cases x) simp_all
qed

lemma answer_op_frame:
  "trace (answer_op x w) = trace w" "objs (answer_op x w) = objs w" "ss_ctrl (sess (answer_op x w)) = ss_ctrl (sess w)"
  "env (answer_op x w) = env w"
  by (cases x; auto simp: waiter_defs run_simps split: option.splits)+

lemma answer_ops_frame:
  "trace (fold answer_op ops w) = trace w" "objs (fold answer_op ops w) = objs w"
  "ss_ctrl (sess (fold answer_op ops w)) = ss_ctrl (sess w)"
  by (induction ops arbitrary: w) (simp_all add: answer_op_frame)

text \<open>An answer that reached the waiter took its entry with it.\<close>

lemma answer_taken:
  "Register i \<notin> set ops \<Longrightarrow> first_delivery i ops \<noteq> None \<Longrightarrow> answer_entry (fold answer_op ops w) i = None"
  "Register i \<notin> set ops \<Longrightarrow> answer_entry w i = None \<Longrightarrow> answer_entry (fold answer_op ops w) i = None"
proof -
  have gone: "answer_entry (fold answer_op ops w) i = None"
    if "Register i \<notin> set ops" "answer_entry w i = None" for ops and w :: "('a, 'b) sworld"
    using that
  proof (induction ops arbitrary: w)
    case (Cons x ops)
    show ?case
    proof (cases x)
      case (Register j)
      then show ?thesis using Cons
        by (cases "ss_pendingAnswers (sess w)") (auto simp: answer_after registerAnswerWaiter_def after_def run_simps
            answer_entry_def waiter_def)
    qed (use Cons in \<open>auto simp: answer_after\<close>)
  qed simp
  then show "Register i \<notin> set ops \<Longrightarrow> answer_entry w i = None \<Longrightarrow> answer_entry (fold answer_op ops w) i = None" .
  show "Register i \<notin> set ops \<Longrightarrow> first_delivery i ops \<noteq> None \<Longrightarrow> answer_entry (fold answer_op ops w) i = None"
  proof (induction ops arbitrary: w)
    case (Cons x ops)
    then show ?case by (cases x) (auto simp: answer_after gone split: if_splits)
  qed simp
qed

lemma recv_answer_gets_first:
  assumes "aw.waits i ch w" and "answer_held w ch = None" and "Register i \<notin> set ops"
    and "run_state (recv_answer (upd (fold answer_op ops)) cerr pick ch) w = (Inr (Some a), w')"
  shows "first_delivery i ops = Some (cs_Candidates a)" "trace w' = trace w"
    "ss_ctrl (sess w') = ss_ctrl (sess w)" "answer_entry w' i = None"
proof -
  let ?w = "fold answer_op ops w"
  have b: "answer_buf ?w ch = Some a" and w': "w' = ?w\<lparr>answer_buf := (answer_buf ?w)(ch := None)\<rparr>"
    using assms(4) by (auto simp: recv_answer_def run_simps split: option.splits if_splits)
  have "answer_held ?w ch = first_delivery i ops"
    using aw.first_delivery_wins [OF assms(1,3)] assms(2) by (simp add: answer_op_apply)
  then show fd: "first_delivery i ops = Some (cs_Candidates a)" using b by (simp add: answer_held_def)
  show "trace w' = trace w" "ss_ctrl (sess w') = ss_ctrl (sess w)"
    by (simp_all add: w' answer_ops_frame)
  show "answer_entry w' i = None"
    using answer_taken(1) [OF assms(3), of w] fd by (simp add: w' answer_entry_def)
qed

text \<open>\<open>Promote\<close> past its guards: the waiter is in the table before the handshake starts.\<close>

lemma Promote_run:
  assumes "ss_pendingAnswers (sess w) \<noteq> None" and "objs w ref = Some rs"
  shows "run_state (Promote N ifaces others cerr pick (Some ref) (Some eng) opts hp) w =
    run_state (Promoter_Run N \<lparr>pr_StreamID = rs_ID rs, pr_Engine = Some eng,
        pr_Locals = promote_locals ifaces opts hp (sess w),
        SendOffer = Some (\<lambda>off. writeCtrl N FtCandidateOffer (MCandidateOffer off)),
        RecvAnswer = Some (recv_answer others cerr pick (next_buf w)),
        SendMigrate = Some (\<lambda>i c. writeCtrl N FtMigrateToP2P (MMigrateToP2P i c))\<rparr>)
      (after (registerAnswerWaiter (rs_ID rs)) w)"
  using assms by (auto simp: Promote_def run_simps registerAnswerWaiter_def promote_locals_def after_def)

lemma registered_frame:
  "trace (after (registerAnswerWaiter i) w) = trace w"
  "ss_ctrl (sess (after (registerAnswerWaiter i) w)) = ss_ctrl (sess w)"
  by (auto simp: registerAnswerWaiter_def after_def run_simps split: option.splits)

lemma offered_waits:
  assumes "answers_ok w"
  shows "aw.waits i (next_buf w) ((after (registerAnswerWaiter i) w)\<lparr>env := e, trace := t\<rparr>)"
    and "answer_held ((after (registerAnswerWaiter i) w)\<lparr>env := e, trace := t\<rparr>) (next_buf w) = None"
proof -
  let ?w0 = "after (registerAnswerWaiter i) w" and ?w1 = "(after (registerAnswerWaiter i) w)\<lparr>env := e, trace := t\<rparr>"
  have reg: "aw.waits i (next_buf w) ?w0" "answer_held ?w0 (next_buf w) = None"
    using aw.registered_waits [OF assms [unfolded answers_ok_table]] by blast+
  have same: "answer_entry ?w1 = answer_entry ?w0" "answer_held ?w1 = answer_held ?w0" "next_buf ?w1 = next_buf ?w0"
      "ss_pendingAnswers (sess ?w1) \<noteq> None"
    using answer_after(4) [of w i] assms by (simp_all add: answers_ok_def answer_entry_def answer_held_def fun_eq_iff)
  show "answer_held ?w1 (next_buf w) = None" by (simp add: same(2) reg(2))
  show "aw.waits i (next_buf w) ?w1"
    by (rule aw.waits_same [OF reg(1) same(1) _ same(3,4)]) (simp add: same(2))
qed

text \<open>The check touches nothing but the outside.\<close>

lemma check_loop_frame:
  "\<exists>e' t. snd (run_state (check_loop N e ls rs) w) = w\<lparr>env := e', trace := t\<rparr>"
proof (induction rs arbitrary: w)
  case Nil
  show ?case by (intro exI [of _ "env w"] exI [of _ "trace w"]) (simp add: run_simps)
next
  case (Cons r rs)
  let ?f = "nl_Dial N (pair_dialer e) (AddrPort_String (Addr r)) (env w)"
  let ?g = "nl_CtxErr N (snd ?f)"
  show ?case
    using Cons.IH [of w] Cons.IH [of "w\<lparr>env := snd ?g,
        trace := trace w @ [EvDial (pair_dialer e) (AddrPort_String (Addr r)) None]\<rparr>"]
    by (auto simp: run_simps split: sum.splits option.splits)
qed

text \<open>
  C35. \<open>Promote\<close> succeeds only through a complete handshake for its own stream: it offers
  the stream's identifier with all local candidates on the control stream, takes the
  first answer delivered for that identifier whatever else the control reader
  delivers meanwhile, and its result is a connection dialed to a valid candidate of
  that answer, each better valid candidate having been dialed before and failed.  The
  migrate notice naming the candidate goes out last, and the waiter is gone.
\<close>

theorem Promote_success:
  assumes "answers_ok w" and "objs w ref = Some rs" and "Register (rs_ID rs) \<notin> set ops"
    and "run_state (Promote N ifaces (upd (fold answer_op ops)) cerr pick (Some ref) (Some eng) opts hp) w = (Inr cr, w')"
  shows "\<exists>cands failed ok. first_delivery (rs_ID rs) ops = Some cands
    \<and> cr_Remote cr \<in> set (FromPB cands) \<and> valid_cand (cr_Remote cr)
    \<and> (\<forall>r \<in> set (FromPB cands). valid_cand r \<and> Priority (cr_Remote cr) < Priority r \<longrightarrow> r \<in> set failed)
    \<and> trace w' = trace w
        @ [EvWriteFrame (ss_ctrl (sess w)) FtCandidateOffer (MCandidateOffer
             \<lparr>cs_StreamId = rs_ID rs, cs_Candidates = toPB (promote_locals ifaces opts hp (sess w))\<rparr>) True]
        @ map (dial_failed eng) failed
        @ [dial_ok eng (cr_Remote cr) (cr_Conn cr),
           EvWriteFrame (ss_ctrl (sess w)) FtMigrateToP2P (MMigrateToP2P (rs_ID rs) (toPBOne (cr_Remote cr))) ok]
    \<and> answer_entry w' (rs_ID rs) = None"
proof -
  let ?i = "rs_ID rs" and ?ls = "promote_locals ifaces opts hp (sess w)"
  let ?w0 = "after (registerAnswerWaiter ?i) w" and ?ctrl = "ss_ctrl (sess w)"
  let ?offer = "MCandidateOffer \<lparr>cs_StreamId = ?i, cs_Candidates = toPB ?ls\<rparr>"
  have pend: "ss_pendingAnswers (sess w) \<noteq> None" using assms(1) by (simp add: answers_ok_def)
  from Promoter_Run_ok [OF assms(4) [unfolded Promote_run [OF pend assms(2)]]]
  obtain w1 a w2 w3 where
    send: "run_state (writeCtrl N FtCandidateOffer ?offer) ?w0 = (None, w1)"
    and recv: "run_state (recv_answer (upd (fold answer_op ops)) cerr pick (next_buf w)) w1 = (Inr (Some a), w2)"
    and check: "run_state (Check N eng ?ls (FromPB (cs_Candidates a))) w2 = (Inr cr, w3)"
    and mig: "w' = snd (run_state (writeCtrl N FtMigrateToP2P (MMigrateToP2P ?i (toPBOne (cr_Remote cr)))) w3)"
    by auto
  obtain e1 where w1: "w1 = ?w0\<lparr>env := e1, trace := trace ?w0 @ [EvWriteFrame ?ctrl FtCandidateOffer ?offer True]\<rparr>"
    using send by (auto simp: writeCtrl_def run_simps registered_frame)
  note got = recv_answer_gets_first [OF offered_waits [OF assms(1)] assms(3) recv [unfolded w1]]
  obtain failed where ok: "cr_Remote cr \<in> set (FromPB (cs_Candidates a))" "valid_cand (cr_Remote cr)"
      "trace w3 = trace w2 @ map (dial_failed eng) failed @ [dial_ok eng (cr_Remote cr) (cr_Conn cr)]"
      "\<forall>r \<in> set (FromPB (cs_Candidates a)). valid_cand r \<and> Priority (cr_Remote cr) < Priority r \<longrightarrow> r \<in> set failed"
    using Check_ok [OF check] by blast
  obtain e3 t3 where "w3 = w2\<lparr>env := e3, trace := t3\<rparr>"
    using check_loop_frame [of N eng ?ls "Sort (FromPB (cs_Candidates a))" w2] check by (auto simp: Check_def)
  then have fr: "sess w3 = sess w2" "answer_entry w3 = answer_entry w2" by (simp_all add: answer_entry_def)
  have ctrl: "ss_ctrl (sess w2) = ?ctrl" using got(3) by (simp add: registered_frame)
  have tr: "trace w' = trace w3
      @ [EvWriteFrame ?ctrl FtMigrateToP2P (MMigrateToP2P ?i (toPBOne (cr_Remote cr)))
          (fst (nl_WriteFrame N ?ctrl FtMigrateToP2P (MMigrateToP2P ?i (toPBOne (cr_Remote cr))) (env w3)) = None)]"
      "sess w' = sess w3"
    by (simp_all add: mig writeCtrl_def run_simps fr ctrl)
  have "trace w2 = trace w @ [EvWriteFrame ?ctrl FtCandidateOffer ?offer True]"
    using got(2) by (simp add: registered_frame)
  moreover have "answer_entry w' ?i = None" using got(4) fr(1) tr(2) by (simp add: answer_entry_def)
  ultimately show ?thesis using ok got(1) tr(1) by (intro exI [of _ "cs_Candidates a"] exI [of _ failed]) auto
qed

definition promote_world :: "(script, ring_view) sworld" where
  "promote_world = sample_world\<lparr>sess := (sess sample_world)\<lparr>ss_pendingAnswers := Some Map.empty,
     ss_localCandidates := [toPBOne cand1]\<rparr>\<rparr>"

lemma promote_world_fields:
  "answers_ok promote_world"
  "objs promote_world 0 = Some \<lparr>rs_ID = 7, rs_inner = 3,
     rs_state = \<lparr>written_bytes = [], evicted = 0, read_count = 0\<rparr>, rs_resumeReady = Some 0, rs_abandoned = False\<rparr>"
  "trace promote_world = []" "ss_ctrl (sess promote_world) = 2" "env promote_world = idle_script"
  "ss_pendingAnswers (sess promote_world) = Some Map.empty" "answer_buf promote_world = (\<lambda>_. None)"
  "next_buf promote_world = 0"
  by (simp_all add: answers_ok_def answer_entry_def waiter_def promote_world_def sample_world_def wrapStream_def
      start_sworld_def sample_session_def new_session_def run_simps list_ring_def)

lemma promote_example:
  "\<exists>w'. run_state (Promote (one_reachable ''203.0.113.9:4000'' 9) (Inr [])
       (upd (fold answer_op [Deliver 8 [], Deliver 7 [toPBOne cand2]])) DeadlineExceeded False (Some 0) (Some NewEngine) [cand1] 0)
     promote_world = (Inr \<lparr>cr_Local = cand1, cr_Remote = cand2, cr_Conn = 9\<rparr>, w')"
proof -
  have "Sort [cand2] = [cand2]" "Sort [cand1] = [cand1]" by code_simp+
  then show ?thesis
    using FromPB_cand2 promote_world_fields(2-)
    by (simp del: FromPB.simps add: Promote_run Promoter_Run_def run_simps recv_answer_def writeCtrl_def waiter_defs
        promote_locals_def Check_def cand_simps cand_strings one_reachable_def best_local_def scripted_def idle_script_def)
qed

theorem Promote_success_witness:
  "\<exists>w' cands. run_state (Promote (one_reachable ''203.0.113.9:4000'' 9) (Inr [])
       (upd (fold answer_op [Deliver 8 [], Deliver 7 [toPBOne cand2]])) DeadlineExceeded False (Some 0) (Some NewEngine) [cand1] 0)
     promote_world = (Inr \<lparr>cr_Local = cand1, cr_Remote = cand2, cr_Conn = 9\<rparr>, w')
     \<and> first_delivery 7 [Deliver 8 [], Deliver 7 [toPBOne cand2]] = Some cands \<and> cand2 \<in> set (FromPB cands)
     \<and> answer_entry w' 7 = None"
proof -
  let ?ops = "[Deliver 8 [], Deliver 7 [toPBOne cand2]]"
  obtain w' where run: "run_state (Promote (one_reachable ''203.0.113.9:4000'' 9) (Inr [])
       (upd (fold answer_op ?ops)) DeadlineExceeded False (Some 0) (Some NewEngine) [cand1] 0)
     promote_world = (Inr \<lparr>cr_Local = cand1, cr_Remote = cand2, cr_Conn = 9\<rparr>, w')"
    using promote_example by blast
  from Promote_success [OF promote_world_fields(1,2) _ run] run
  show ?thesis by (auto simp del: FromPB.simps)
qed

text \<open>
  A promotion that gets no answer leaves its waiter behind: whether the offer
  could not be sent or the context ended first, \<open>Promote\<close> fails and the entry it made in
  the table of pending answers is still there, with nobody to read its channel.
\<close>

theorem Promote_leaks_waiter:
  assumes "ss_pendingAnswers (sess w) \<noteq> None" and "objs w ref = Some rs"
    and "run_state (Promote N ifaces (State_Monad.return ()) cerr pick (Some ref) (Some eng) opts hp) w = (r, w')"
  shows "\<exists>e. r = Inl e \<and> answer_entry w' (rs_ID rs) = Some (next_buf w)"
proof -
  let ?w0 = "after (registerAnswerWaiter (rs_ID rs)) w"
  have "answer_buf ?w0 (next_buf w) = None" "answer_entry ?w0 (rs_ID rs) = Some (next_buf w)"
    using answer_after(2) [of "rs_ID rs" w] answer_after(1) [OF assms(1), of "rs_ID rs"]
    by (auto simp: answer_held_def fun_eq_iff split: if_splits)
  then show ?thesis
    using assms(3) unfolding Promote_run [OF assms(1,2)]
    by (auto simp: Promoter_Run_def recv_answer_def writeCtrl_def run_simps answer_entry_def split: option.splits)
qed

theorem Promote_leaks_waiter_witness:
  "\<exists>w' e. run_state (Promote scripted (Inr []) (State_Monad.return ()) Canceled True (Some 0) (Some NewEngine) [cand1] 0)
     promote_world = (Inl e, w') \<and> answer_entry w' 7 = Some 0"
proof -
  obtain r w' where run:
      "run_state (Promote scripted (Inr []) (State_Monad.return ()) Canceled True (Some 0) (Some NewEngine) [cand1] 0)
         promote_world = (r, w')"
    by fastforce
  from Promote_leaks_waiter [OF _ promote_world_fields(2) run] run promote_world_fields(6,8)
  show ?thesis by auto
qed

end
