(* ===== verification/Forward.thy ===== *)
theory Forward
  imports Scripted "HOL-Library.Multiset"
begin

text \<open>
  The forwarding data plane: \<open>pkg/forward/conn.go\<close>, the packet connection that prefixes
  every datagram with the peer's allocation and sends it to the relay, and
  \<open>pkg/session/forward.go\<close>, the bring-up and teardown of the end-to-end QUIC session on
  top of it.  The UDP sockets and \<open>quic-go\<close> are the argument \<open>'e fwdlib\<close>: like the
  transport they act on the outside state and may fail at any call.  A
  \<open>quic.Transport\<close> is named by the socket it sits on.
\<close>

section \<open>Sockets and QUIC\<close>

record quic_config =
  qc_HandshakeIdleTimeout :: nat
  qc_MaxIdleTimeout :: nat
  qc_KeepAlivePeriod :: nat

record 'e fwdlib =
  fl_ListenUDP :: "'e \<Rightarrow> (go_error + nat) \<times> 'e"
  fl_WriteUDP :: "nat \<Rightarrow> byte list \<Rightarrow> addr_port \<Rightarrow> 'e \<Rightarrow> go_error option \<times> 'e"
  fl_ReadUDP :: "nat \<Rightarrow> nat \<Rightarrow> 'e \<Rightarrow> (go_error + byte list) \<times> 'e"
  fl_CloseUDP :: "nat \<Rightarrow> 'e \<Rightarrow> go_error option \<times> 'e"
  fl_Dial :: "nat \<Rightarrow> addr_port \<Rightarrow> tls_config \<Rightarrow> quic_config \<Rightarrow> 'e \<Rightarrow> (go_error + conn) \<times> 'e"
  fl_Listen :: "nat \<Rightarrow> tls_config \<Rightarrow> quic_config \<Rightarrow> 'e \<Rightarrow> (go_error + nat) \<times> 'e"
  fl_Accept :: "nat \<Rightarrow> 'e \<Rightarrow> (go_error + conn) \<times> 'e"
  fl_OpenStreamSync :: "conn \<Rightarrow> 'e \<Rightarrow> (go_error + stream) \<times> 'e"
  fl_AcceptStream :: "conn \<Rightarrow> 'e \<Rightarrow> (go_error + stream) \<times> 'e"
  fl_CloseWithError :: "conn \<Rightarrow> string \<Rightarrow> 'e \<Rightarrow> go_error option \<times> 'e"
  fl_CloseTransport :: "nat \<Rightarrow> 'e \<Rightarrow> go_error option \<times> 'e"
  fl_CloseListener :: "nat \<Rightarrow> 'e \<Rightarrow> go_error option \<times> 'e"
  fl_CloseStream :: "stream \<Rightarrow> 'e \<Rightarrow> go_error option \<times> 'e"

definition ListenUDP_io :: "'e fwdlib \<Rightarrow> ('e, 'm, go_error + nat) io" where
  "ListenUDP_io F = act (fl_ListenUDP F) (\<lambda>r. [EvUDPBind (ok_value r)])"

definition WriteUDP_io :: "'e fwdlib \<Rightarrow> nat \<Rightarrow> byte list \<Rightarrow> addr_port \<Rightarrow> ('e, 'm, go_error option) io" where
  "WriteUDP_io F u b a = act (fl_WriteUDP F u b a) (\<lambda>r. [EvUDPSend u b a (r = None)])"

definition ReadUDP_io :: "'e fwdlib \<Rightarrow> nat \<Rightarrow> nat \<Rightarrow> ('e, 'm, go_error + byte list) io" where
  "ReadUDP_io F u n = act (fl_ReadUDP F u n) (\<lambda>_. [])"

definition CloseUDP_io :: "'e fwdlib \<Rightarrow> nat \<Rightarrow> ('e, 'm, go_error option) io" where
  "CloseUDP_io F u = act (fl_CloseUDP F u) (\<lambda>_. [EvUDPClose u])"

definition QuicDial_io ::
  "'e fwdlib \<Rightarrow> nat \<Rightarrow> addr_port \<Rightarrow> tls_config \<Rightarrow> quic_config \<Rightarrow> ('e, 'm, go_error + conn) io" where
  "QuicDial_io F t a c q = act (fl_Dial F t a c q) (\<lambda>r. [EvQuicDial t c (ok_value r)])"

definition QuicListen_io :: "'e fwdlib \<Rightarrow> nat \<Rightarrow> tls_config \<Rightarrow> quic_config \<Rightarrow> ('e, 'm, go_error + nat) io" where
  "QuicListen_io F t c q = act (fl_Listen F t c q) (\<lambda>r. [EvQuicListen t c (ok_value r)])"

definition QuicAccept_io :: "'e fwdlib \<Rightarrow> nat \<Rightarrow> ('e, 'm, go_error + conn) io" where
  "QuicAccept_io F l = act (fl_Accept F l) (\<lambda>r. [EvQuicAccept l (ok_value r)])"

definition OpenStreamSync_io :: "'e fwdlib \<Rightarrow> conn \<Rightarrow> ('e, 'm, go_error + stream) io" where
  "OpenStreamSync_io F c = act (fl_OpenStreamSync F c) (\<lambda>r. [EvOpen c (ok_value r)])"

definition AcceptStream_io :: "'e fwdlib \<Rightarrow> conn \<Rightarrow> ('e, 'm, go_error + stream) io" where
  "AcceptStream_io F c = act (fl_AcceptStream F c) (\<lambda>r. [EvQuicAcceptStream c (ok_value r)])"

definition CloseWithError_io :: "'e fwdlib \<Rightarrow> conn \<Rightarrow> string \<Rightarrow> ('e, 'm, go_error option) io" where
  "CloseWithError_io F c m = act (fl_CloseWithError F c m) (\<lambda>_. [EvConnClose c])"

definition CloseTransport_io :: "'e fwdlib \<Rightarrow> nat \<Rightarrow> ('e, 'm, go_error option) io" where
  "CloseTransport_io F t = act (fl_CloseTransport F t) (\<lambda>_. [EvTransportClose t])"

definition CloseListener_io :: "'e fwdlib \<Rightarrow> nat \<Rightarrow> ('e, 'm, go_error option) io" where
  "CloseListener_io F l = act (fl_CloseListener F l) (\<lambda>_. [EvListenerClose l])"

definition CloseStream_io :: "'e fwdlib \<Rightarrow> stream \<Rightarrow> ('e, 'm, go_error option) io" where
  "CloseStream_io F st = act (fl_CloseStream F st) (\<lambda>_. [EvClose st])"

lemmas fwd_io_defs = ListenUDP_io_def WriteUDP_io_def ReadUDP_io_def CloseUDP_io_def QuicDial_io_def
  QuicListen_io_def QuicAccept_io_def OpenStreamSync_io_def AcceptStream_io_def CloseWithError_io_def
  CloseTransport_io_def CloseListener_io_def CloseStream_io_def

declare fwd_io_defs [run_simps]

section \<open>The packet connection\<close>

record fwd_conn =
  fc_udp :: nat
  fc_relay :: addr_port
  fc_peerAlloc :: uint32
  fc_myAlloc :: uint32

definition PeerSentinel :: addr_port where
  "PeerSentinel = (AddrFrom4 [127, 0, 0, 0], 1)"

definition fwd_register :: "'e fwdlib \<Rightarrow> fwd_conn \<Rightarrow> ('e, 'm, go_error option) io" where
  "fwd_register F c = do {
     e \<leftarrow> WriteUDP_io F (fc_udp c) (PutUint32 0 @ PutUint32 (fc_myAlloc c)) (fc_relay c);
     State_Monad.return (map_option (Wrapf ''forward: register'') e)
   }"

definition DialWithLogger ::
  "'e fwdlib \<Rightarrow> addr_port \<Rightarrow> uint32 \<Rightarrow> uint32 \<Rightarrow> ('e, 'm, go_error + fwd_conn) io" where
  "DialWithLogger F relay myAlloc peerAlloc =
     (if myAlloc = 0 \<or> peerAlloc = 0 then
        State_Monad.return (Inl (ErrorNew ''forward: alloc ids must be non-zero''))
      else do {
        r \<leftarrow> ListenUDP_io F;
        case r of
          Inl e \<Rightarrow> State_Monad.return (Inl (Wrapf ''forward: bind local UDP'' e))
        | Inr u \<Rightarrow> do {
            let c = \<lparr>fc_udp = u, fc_relay = relay, fc_peerAlloc = peerAlloc, fc_myAlloc = myAlloc\<rparr>;
            e \<leftarrow> fwd_register F c;
            case e of
              Some err \<Rightarrow> do { _ \<leftarrow> CloseUDP_io F u; State_Monad.return (Inl err) }
            | None \<Rightarrow> State_Monad.return (Inr c)
          }
      })"

definition fwd_Dial :: "'e fwdlib \<Rightarrow> addr_port \<Rightarrow> uint32 \<Rightarrow> uint32 \<Rightarrow> ('e, 'm, go_error + fwd_conn) io" where
  "fwd_Dial F relay myAlloc peerAlloc = DialWithLogger F relay myAlloc peerAlloc"

definition fwd_WriteTo ::
  "'e fwdlib \<Rightarrow> fwd_conn \<Rightarrow> byte list \<Rightarrow> addr_port \<Rightarrow> ('e, 'm, nat \<times> go_error option) io" where
  "fwd_WriteTo F c p addr = do {
     e \<leftarrow> WriteUDP_io F (fc_udp c) (PutUint32 (fc_peerAlloc c) @ p) (fc_relay c);
     State_Monad.return (case e of Some err \<Rightarrow> (0, Some err) | None \<Rightarrow> (length p, None))
   }"

text \<open>\<open>ReadFrom\<close> into a buffer of \<open>n\<close> bytes: the bytes read and the address reported.\<close>

definition fwd_ReadFrom ::
  "'e fwdlib \<Rightarrow> fwd_conn \<Rightarrow> nat \<Rightarrow> ('e, 'm, go_error + byte list \<times> addr_port) io" where
  "fwd_ReadFrom F c n = do {
     r \<leftarrow> ReadUDP_io F (fc_udp c) n;
     State_Monad.return (case r of Inl e \<Rightarrow> Inl e | Inr b \<Rightarrow> Inr (b, fc_relay c))
   }"

definition fwd_Close :: "'e fwdlib \<Rightarrow> fwd_conn \<Rightarrow> ('e, 'm, go_error option) io" where
  "fwd_Close F c = CloseUDP_io F (fc_udp c)"

section \<open>The forward session\<close>

record forward_session =
  fs_conn :: "conn option"
  fs_stream :: "stream option"
  fs_transport :: "nat option"
  fs_udp :: "fwd_conn option"

definition ForwardALPN :: string where
  "ForwardALPN = ''outrelay-fwd/1''"

definition VersionTLS13 :: nat where
  "VersionTLS13 = 772"

definition ensureForwardALPN :: "tls_config \<Rightarrow> tls_config" where
  "ensureForwardALPN c = c\<lparr>tc_NextProtos := [ForwardALPN],
     tc_MinVersion := (if tc_MinVersion c = 0 then VersionTLS13 else tc_MinVersion c)\<rparr>"

definition defaultQUICConfig :: quic_config where
  "defaultQUICConfig = \<lparr>qc_HandshakeIdleTimeout = 30000000000, qc_MaxIdleTimeout = 45000000000,
     qc_KeepAlivePeriod = 15000000000\<rparr>"

text \<open>One step of \<open>Close\<close>: a part that is there is closed, the first error is kept.\<close>

definition close_part ::
  "('a \<Rightarrow> ('e, 'm, go_error option) io) \<Rightarrow> 'a option \<Rightarrow> go_error option \<Rightarrow> ('e, 'm, go_error option) io" where
  "close_part close part first = (case part of
       None \<Rightarrow> State_Monad.return first
     | Some x \<Rightarrow> do {
         e \<leftarrow> close x;
         State_Monad.return (case first of Some _ \<Rightarrow> first | None \<Rightarrow> e)
       })"

definition ForwardSession_Close :: "'e fwdlib \<Rightarrow> forward_session \<Rightarrow> ('e, 'm, go_error option) io" where
  "ForwardSession_Close F f = do {
     first \<leftarrow> close_part (CloseStream_io F) (fs_stream f) None;
     first \<leftarrow> close_part (\<lambda>c. CloseWithError_io F c []) (fs_conn f) first;
     first \<leftarrow> close_part (CloseTransport_io F) (fs_transport f) first;
     close_part (fwd_Close F) (fs_udp f) first
   }"

definition valid_grant :: "alloc_granted option \<Rightarrow> bool" where
  "valid_grant g = (case g of None \<Rightarrow> False | Some x \<Rightarrow> g_MyAllocation x \<noteq> 0 \<and> g_PeerAllocation x \<noteq> 0)"

text \<open>The socket both bring-ups start with.\<close>

definition open_plane :: "'e fwdlib \<Rightarrow> alloc_granted option \<Rightarrow> ('e, 'm, go_error + fwd_conn) io" where
  "open_plane F granted = (case granted of
       None \<Rightarrow> State_Monad.return (Inl (ErrorNew ''session: invalid AllocGranted''))
     | Some g \<Rightarrow>
         if \<not> valid_grant granted then State_Monad.return (Inl (ErrorNew ''session: invalid AllocGranted''))
         else (case ParseAddrPort (g_ForwardEndpoint g) of
             None \<Rightarrow> State_Monad.return (Inl (Wrapf ''session: parse forward endpoint'' (ErrorNew ''ParseAddrPort'')))
           | Some relay \<Rightarrow> fwd_Dial F relay (g_MyAllocation g) (g_PeerAllocation g)))"

definition DialForward ::
  "'e fwdlib \<Rightarrow> alloc_granted option \<Rightarrow> tls_config \<Rightarrow> ('e, 'm, go_error + forward_session) io" where
  "DialForward F granted tlsConf = do {
     p \<leftarrow> open_plane F granted;
     case p of
       Inl e \<Rightarrow> State_Monad.return (Inl e)
     | Inr udp \<Rightarrow> do {
         let tr = fc_udp udp;
         d \<leftarrow> QuicDial_io F tr PeerSentinel (ensureForwardALPN tlsConf) defaultQUICConfig;
         case d of
           Inl e \<Rightarrow> do {
             _ \<leftarrow> CloseTransport_io F tr;
             _ \<leftarrow> fwd_Close F udp;
             State_Monad.return (Inl (Wrapf ''session: forward dial'' e))
           }
         | Inr qc \<Rightarrow> do {
             s \<leftarrow> OpenStreamSync_io F qc;
             case s of
               Inl e \<Rightarrow> do {
                 _ \<leftarrow> CloseWithError_io F qc ''open stream failed'';
                 _ \<leftarrow> CloseTransport_io F tr;
                 _ \<leftarrow> fwd_Close F udp;
                 State_Monad.return (Inl (Wrapf ''session: forward open stream'' e))
               }
             | Inr st \<Rightarrow> State_Monad.return (Inr \<lparr>fs_conn = Some qc, fs_stream = Some st,
                 fs_transport = Some tr, fs_udp = Some udp\<rparr>)
           }
       }
   }"

text \<open>The listener is closed on every path out of \<open>AcceptForward\<close> once it exists.\<close>

definition AcceptForward ::
  "'e fwdlib \<Rightarrow> alloc_granted option \<Rightarrow> tls_config \<Rightarrow> ('e, 'm, go_error + forward_session) io" where
  "AcceptForward F granted tlsConf = do {
     p \<leftarrow> open_plane F granted;
     case p of
       Inl e \<Rightarrow> State_Monad.return (Inl e)
     | Inr udp \<Rightarrow> do {
         let tr = fc_udp udp;
         l \<leftarrow> QuicListen_io F tr (ensureForwardALPN tlsConf) defaultQUICConfig;
         case l of
           Inl e \<Rightarrow> do {
             _ \<leftarrow> CloseTransport_io F tr;
             _ \<leftarrow> fwd_Close F udp;
             State_Monad.return (Inl (Wrapf ''session: forward listen'' e))
           }
         | Inr ln \<Rightarrow> do {
             a \<leftarrow> QuicAccept_io F ln;
             r \<leftarrow> (case a of
                 Inl e \<Rightarrow> do {
                   _ \<leftarrow> CloseTransport_io F tr;
                   _ \<leftarrow> fwd_Close F udp;
                   State_Monad.return (Inl (Wrapf ''session: forward accept conn'' e))
                 }
               | Inr qc \<Rightarrow> do {
                   s \<leftarrow> AcceptStream_io F qc;
                   case s of
                     Inl e \<Rightarrow> do {
                       _ \<leftarrow> CloseWithError_io F qc ''accept stream failed'';
                       _ \<leftarrow> CloseTransport_io F tr;
                       _ \<leftarrow> fwd_Close F udp;
                       State_Monad.return (Inl (Wrapf ''session: forward accept stream'' e))
                     }
                   | Inr st \<Rightarrow> State_Monad.return (Inr \<lparr>fs_conn = Some qc, fs_stream = Some st,
                       fs_transport = Some tr, fs_udp = Some udp\<rparr>)
                 });
             _ \<leftarrow> CloseListener_io F ln;
             State_Monad.return r
           }
       }
   }"

section \<open>Packets\<close>

text \<open>
  C39. Packets reach the right place unchanged: a dialed connection has announced its own
  allocation to the relay in a registration packet (prefix zero), and everything
  written to it goes to the relay whatever address the caller names, with a prefix
  that is the peer's allocation, never zero, and behind it exactly the payload.  The
  write reports the payload's length, or nothing and the error.
\<close>

theorem forward_packets:
  assumes "run_state (fwd_Dial F relay my peer) w = (Inr c, w1)"
    and "run_state (fwd_WriteTo F c p addr) w1 = ((n, e), w2)"
  shows "\<exists>u reg pkt ok. trace w2 = trace w @ [EvUDPBind (Some u), EvUDPSend u reg relay True, EvUDPSend u pkt relay ok]
    \<and> length reg = 8 \<and> Uint32 reg = 0 \<and> Uint32 (drop 4 reg) = my
    \<and> Uint32 pkt = peer \<and> peer \<noteq> 0 \<and> drop 4 pkt = p
    \<and> (if ok then n = length p \<and> e = None else n = 0 \<and> e \<noteq> None)"
proof -
  from assms(1) obtain u where c: "c = \<lparr>fc_udp = u, fc_relay = relay, fc_peerAlloc = peer, fc_myAlloc = my\<rparr>"
      "peer \<noteq> 0" "trace w1 = trace w @ [EvUDPBind (Some u), EvUDPSend u (PutUint32 0 @ PutUint32 my) relay True]"
    by (auto simp: fwd_Dial_def DialWithLogger_def fwd_register_def run_simps split: if_splits sum.splits option.splits)
  let ?pkt = "PutUint32 peer @ p"
  let ?e = "fst (fl_WriteUDP F u ?pkt relay (env w1))"
  have tr: "trace w2 = trace w1 @ [EvUDPSend u ?pkt relay (?e = None)]"
    and res: "if ?e = None then n = length p \<and> e = None else n = 0 \<and> e \<noteq> None"
    using assms(2) c(1) by (cases ?e, auto simp: fwd_WriteTo_def run_simps)+
  have "Uint32 (PutUint32 my) = my" using Uint32_PutUint32 [of my "[]"] by simp
  then show ?thesis
    unfolding tr c(3) using c(2) res
    by - (rule exI [of _ u], rule exI [of _ "PutUint32 0 @ PutUint32 my"], rule exI [of _ ?pkt],
      rule exI [of _ "?e = None"], simp)
qed

section \<open>Resources\<close>

datatype resource = RSocket nat | RTransport nat | RListener nat | RConn conn | RStream stream

fun acquires :: "event \<Rightarrow> resource multiset" where
  "acquires (EvUDPBind (Some u)) = {#RSocket u#}"
| "acquires (EvQuicDial t c None) = {#RTransport t#}"
| "acquires (EvQuicDial t c (Some q)) = {#RTransport t, RConn q#}"
| "acquires (EvQuicListen t c None) = {#RTransport t#}"
| "acquires (EvQuicListen t c (Some l)) = {#RTransport t, RListener l#}"
| "acquires (EvQuicAccept l (Some q)) = {#RConn q#}"
| "acquires (EvOpen c (Some st)) = {#RStream st#}"
| "acquires (EvQuicAcceptStream c (Some st)) = {#RStream st#}"
| "acquires _ = {#}"

fun releases :: "event \<Rightarrow> resource multiset" where
  "releases (EvUDPClose u) = {#RSocket u#}"
| "releases (EvTransportClose t) = {#RTransport t#}"
| "releases (EvListenerClose l) = {#RListener l#}"
| "releases (EvConnClose c) = {#RConn c#}"
| "releases (EvClose st) = {#RStream st#}"
| "releases _ = {#}"

definition acquired :: "event list \<Rightarrow> resource multiset" where
  "acquired es = sum_list (map acquires es)"

definition released :: "event list \<Rightarrow> resource multiset" where
  "released es = sum_list (map releases es)"

definition part :: "('a \<Rightarrow> resource) \<Rightarrow> 'a option \<Rightarrow> resource multiset" where
  "part f x = (case x of None \<Rightarrow> {#} | Some y \<Rightarrow> {#f y#})"

definition fs_holds :: "forward_session \<Rightarrow> resource multiset" where
  "fs_holds f = part RStream (fs_stream f) + part RConn (fs_conn f) + part RTransport (fs_transport f)
     + part (RSocket \<circ> fc_udp) (fs_udp f)"

definition result_holds :: "go_error + forward_session \<Rightarrow> resource multiset" where
  "result_holds r = (case r of Inl _ \<Rightarrow> {#} | Inr f \<Rightarrow> fs_holds f)"

text \<open>An action whose acquisitions are released again or held by its result.\<close>

definition balanced :: "('e, 'm, 'a) io \<Rightarrow> ('a \<Rightarrow> resource multiset) \<Rightarrow> bool" where
  "balanced m h \<longleftrightarrow> (\<forall>w. \<exists>new. trace (snd (run_state m w)) = trace w @ new
     \<and> acquired new = released new + h (fst (run_state m w)))"

lemma balance_simps [simp]:
  "acquired [] = {#}" "acquired (e # es) = acquires e + acquired es"
  "released [] = {#}" "released (e # es) = releases e + released es"
  "part f None = {#}" "part f (Some x) = {#f x#}"
  by (simp_all add: acquired_def released_def part_def)

lemma open_plane_run:
  "case run_state (open_plane F g) w of
     (Inl e, w') \<Rightarrow> \<exists>new. trace w' = trace w @ new \<and> acquired new = released new
   | (Inr c, w') \<Rightarrow> \<exists>new. trace w' = trace w @ new \<and> acquired new = {#RSocket (fc_udp c)#} \<and> released new = {#}"
  by (auto simp: open_plane_def fwd_Dial_def DialWithLogger_def fwd_register_def run_simps
      split: option.splits sum.splits)

lemma acquired_append [simp]: "acquired (es @ fs) = acquired es + acquired fs" "released (es @ fs) = released es + released fs"
  by (simp_all add: acquired_def released_def)

lemma balancedI:
  assumes "\<And>w a w'. run_state m w = (a, w') \<Longrightarrow> \<exists>new. trace w' = trace w @ new \<and> acquired new = released new + h a"
  shows "balanced m h"
  unfolding balanced_def by (metis assms prod.collapse)

lemma balanced_DialForward: "balanced (DialForward F g tls) result_holds"
proof (rule balancedI)
  fix w a w' assume run: "run_state (DialForward F g tls) w = (a, w')"
  obtain p w1 where p: "run_state (open_plane F g) w = (p, w1)" by fastforce
  show "\<exists>new. trace w' = trace w @ new \<and> acquired new = released new + result_holds a"
    using run p open_plane_run [where F = F and g = g and w = w]
    by (cases p) (auto simp: DialForward_def fwd_Close_def run_simps result_holds_def fs_holds_def split: sum.splits)
qed

lemma balanced_AcceptForward: "balanced (AcceptForward F g tls) result_holds"
proof (rule balancedI)
  fix w a w' assume run: "run_state (AcceptForward F g tls) w = (a, w')"
  obtain p w1 where p: "run_state (open_plane F g) w = (p, w1)" by fastforce
  show "\<exists>new. trace w' = trace w @ new \<and> acquired new = released new + result_holds a"
    using run p open_plane_run [where F = F and g = g and w = w]
    by (cases p) (auto simp: AcceptForward_def fwd_Close_def run_simps result_holds_def fs_holds_def split: sum.splits)
qed

lemma ForwardSession_Close_run:
  "\<exists>new. trace (snd (run_state (ForwardSession_Close F f) w)) = trace w @ new
     \<and> acquired new = {#} \<and> released new = fs_holds f"
  by (cases "fs_stream f"; cases "fs_conn f"; cases "fs_transport f"; cases "fs_udp f")
    (simp_all add: ForwardSession_Close_def close_part_def fwd_Close_def run_simps fs_holds_def)

text \<open>
  C40. The forward plane leaks nothing, on any path: whatever sockets, transports,
  listeners, connections and streams \<open>DialForward\<close> or \<open>AcceptForward\<close> opened, each is
  closed again exactly once when they fail, and when they succeed exactly the four
  parts of the returned session are left, which its \<open>Close\<close> then releases, each once.
\<close>

theorem forward_no_leak:
  "balanced (DialForward F g tls) result_holds \<and> balanced (AcceptForward F g tls) result_holds \<and>
   balanced (do { r \<leftarrow> DialForward F g tls; case r of Inl e \<Rightarrow> State_Monad.return (Some e) | Inr f \<Rightarrow> ForwardSession_Close F f })
     (\<lambda>_. {#})"
proof (intro conjI balanced_DialForward balanced_AcceptForward balancedI)
  fix w a w'
  assume run: "run_state (do { r \<leftarrow> DialForward F g tls;
      case r of Inl e \<Rightarrow> State_Monad.return (Some e) | Inr f \<Rightarrow> ForwardSession_Close F f }) w = (a, w')"
  obtain r w1 where r: "run_state (DialForward F g tls) w = (r, w1)" by fastforce
  obtain new where new: "trace w1 = trace w @ new" "acquired new = released new + result_holds r"
    using balanced_DialForward [of F g tls, unfolded balanced_def, rule_format, of w] r by auto
  show "\<exists>new. trace w' = trace w @ new \<and> acquired new = released new + {#}"
  proof (cases r)
    case (Inl e)
    then show ?thesis using run r new by (auto simp: run_simps result_holds_def)
  next
    case (Inr f)
    then have w': "w' = snd (run_state (ForwardSession_Close F f) w1)" using run r by (simp add: run_simps)
    obtain new2 where "trace w' = trace w1 @ new2" "acquired new2 = {#}" "released new2 = fs_holds f"
      using ForwardSession_Close_run [where F = F and f = f and w = w1] w' by blast
    then show ?thesis using new Inr by (intro exI [of _ "new @ new2"]) (simp add: result_holds_def)
  qed
qed

text \<open>
  \<open>Close\<close> tears a session down in the documented order, stream, connection,
  transport, socket; it goes on after an error and returns the first one.
\<close>

theorem ForwardSession_Close_order:
  assumes "fl_CloseStream F st (env w) = (e1, s1)" and "fl_CloseWithError F c [] s1 = (e2, s2)"
    and "fl_CloseTransport F t s2 = (e3, s3)" and "fl_CloseUDP F (fc_udp u) s3 = (e4, s4)"
  shows "run_state (ForwardSession_Close F
       \<lparr>fs_conn = Some c, fs_stream = Some st, fs_transport = Some t, fs_udp = Some u\<rparr>) w
     = (Option.bind (find (\<lambda>e. e \<noteq> None) [e1, e2, e3, e4]) id,
        w\<lparr>env := s4, trace := trace w @ [EvClose st, EvConnClose c, EvTransportClose t, EvUDPClose (fc_udp u)]\<rparr>)"
  using assms by (auto simp: ForwardSession_Close_def close_part_def fwd_Close_def run_simps split: option.splits)

text \<open>A plane on which every call succeeds but closing the connection, for the concrete runs.\<close>

definition lucky :: "unit fwdlib" where
  "lucky = \<lparr>fl_ListenUDP = Pair (Inr 5), fl_WriteUDP = (\<lambda>u b a. Pair None), fl_ReadUDP = (\<lambda>u n. Pair (Inr [])),
     fl_CloseUDP = (\<lambda>u. Pair (Some NetClosed)), fl_Dial = (\<lambda>t a c q. Pair (Inr 6)), fl_Listen = (\<lambda>t c q. Pair (Inr 7)),
     fl_Accept = (\<lambda>l. Pair (Inr 8)), fl_OpenStreamSync = (\<lambda>c. Pair (Inr 9)), fl_AcceptStream = (\<lambda>c. Pair (Inr 10)),
     fl_CloseWithError = (\<lambda>c m. Pair (Some EOF)), fl_CloseTransport = (\<lambda>t. Pair None),
     fl_CloseListener = (\<lambda>l. Pair None), fl_CloseStream = (\<lambda>st. Pair None)\<rparr>"

definition quiet_world :: "unit world" where
  "quiet_world = \<lparr>env = (), trace = []\<rparr>"

theorem ForwardSession_Close_order_witness:
  "run_state (ForwardSession_Close lucky \<lparr>fs_conn = Some 6, fs_stream = Some 9, fs_transport = Some 5,
       fs_udp = Some \<lparr>fc_udp = 5, fc_relay = PeerSentinel, fc_peerAlloc = 1, fc_myAlloc = 2\<rparr>\<rparr>) quiet_world
   = (Some EOF, \<lparr>env = (), trace = [EvClose 9, EvConnClose 6, EvTransportClose 5, EvUDPClose 5]\<rparr>)"
  by (subst ForwardSession_Close_order [where ?e1.0 = None and ?e2.0 = "Some EOF" and ?e3.0 = None
        and ?e4.0 = "Some NetClosed" and ?s1.0 = "()" and ?s2.0 = "()" and ?s3.0 = "()" and ?s4.0 = "()"])
    (simp_all add: lucky_def quiet_world_def)

theorem forward_packets_witness:
  "\<exists>c w1 n e w2 pkt. run_state (fwd_Dial lucky PeerSentinel 2 1) quiet_world = (Inr c, w1)
     \<and> run_state (fwd_WriteTo lucky c [42, 43] (Addr4 0, 0)) w1 = ((n, e), w2)
     \<and> EvUDPSend 5 pkt PeerSentinel True \<in> set (trace w2) \<and> Uint32 pkt = 1 \<and> drop 4 pkt = [42, 43] \<and> n = 2"
proof -
  obtain c w1 where d: "run_state (fwd_Dial lucky PeerSentinel 2 1) quiet_world = (Inr c, w1)" "fc_udp c = 5"
    by (simp add: fwd_Dial_def DialWithLogger_def fwd_register_def run_simps lucky_def)
  obtain n e w2 where wr: "run_state (fwd_WriteTo lucky c [42, 43] (Addr4 0, 0)) w1 = ((n, e), w2)" "n = 2"
    by (simp add: fwd_WriteTo_def run_simps lucky_def)
  from forward_packets [OF d(1) wr(1)] wr(2) obtain u pkt where
    "EvUDPSend u pkt PeerSentinel True \<in> set (trace w2)" "Uint32 pkt = 1" "drop 4 pkt = [42, 43]"
    "EvUDPBind (Some u) \<in> set (trace w2)"
    by (auto split: if_splits)
  moreover have "u = 5"
    using \<open>EvUDPBind (Some u) \<in> set (trace w2)\<close> d(1) wr(1)
    by (auto simp: fwd_Dial_def DialWithLogger_def fwd_register_def fwd_WriteTo_def run_simps lucky_def quiet_world_def)
  ultimately show ?thesis using d(1) wr by blast
qed

end
