(* ===== verification/Incoming.thy ===== *)
theory Incoming
  imports Promotion Forward
begin

text \<open>
  The provider's side of a stream: \<open>handleIncoming\<close> of \<open>pkg/session/session.go\<close>.  The
  registered handlers and the backends they return are the argument \<open>'e hostlib\<close>; what
  other goroutines do while this one waits for the relay's mode signal or while the
  bridge copies is given as actions.  The copying itself is modelled in \<open>Bridge\<close>.
\<close>

section \<open>Backends\<close>

record 'e hostlib =
  hl_Handle :: "nat \<Rightarrow> incoming_stream \<Rightarrow> 'e \<Rightarrow> (go_error + nat) \<times> 'e"
  hl_Close :: "endpoint \<Rightarrow> 'e \<Rightarrow> go_error option \<times> 'e"

definition Handle_io :: "'e hostlib \<Rightarrow> nat \<Rightarrow> incoming_stream \<Rightarrow> ('e, 'm, go_error + nat) io" where
  "Handle_io H h i = act (hl_Handle H h i) (\<lambda>r. [EvHandler h i (ok_value r)])"

definition CloseLocal_io :: "'e hostlib \<Rightarrow> endpoint \<Rightarrow> ('e, 'm, go_error option) io" where
  "CloseLocal_io H p = act (hl_Close H p) (\<lambda>_. [EvLocalClose p])"

declare Handle_io_def [run_simps] CloseLocal_io_def [run_simps]

text \<open>The end of \<open>bridge\<close>: once both directions are done, both ends are closed.\<close>

definition close_endpoint :: "'e netlib \<Rightarrow> 'e fwdlib \<Rightarrow> 'e hostlib \<Rightarrow> endpoint \<Rightarrow> ('e, 's, go_error option) sio" where
  "close_endpoint N F H p = (case p of
       EpWrapped ref \<Rightarrow> Close_stream N ref
     | EpStream st \<Rightarrow> CloseStream_io F st
     | _ \<Rightarrow> CloseLocal_io H p)"

definition bridge_ends ::
  "'e netlib \<Rightarrow> 'e fwdlib \<Rightarrow> 'e hostlib \<Rightarrow> ('e, 's, unit) sio \<Rightarrow> endpoint \<Rightarrow> endpoint \<Rightarrow> ('e, 's, unit) sio" where
  "bridge_ends N F H during a b = do {
     emit (EvBridge a b);
     during;
     _ \<leftarrow> close_endpoint N F H a;
     _ \<leftarrow> close_endpoint N F H b;
     State_Monad.return ()
   }"

section \<open>Handling a stream\<close>

definition reject :: "'e netlib \<Rightarrow> stream \<Rightarrow> nat \<Rightarrow> go_error \<Rightarrow> ('e, 'm, unit) io" where
  "reject N st code reason = do {
     _ \<leftarrow> WriteFrame_io N st FtStreamReject (MStreamReject code reason);
     close_quietly N st
   }"

text \<open>
  What is done with the stream once the mode is known.  Deferred closes run in the
  reverse order of their registration.
\<close>

definition serve_mode ::
  "'e netlib \<Rightarrow> 'e fwdlib \<Rightarrow> 'e hostlib \<Rightarrow> ('e, 's, unit) sio \<Rightarrow> nat \<Rightarrow> nat \<Rightarrow> alloc_granted option \<Rightarrow> ('e, 's, unit) sio" where
  "serve_mode N F H during ref be granted = (case granted of
        None \<Rightarrow> bridge_ends N F H during (EpWrapped ref) (EpBackend be)
      | Some g \<Rightarrow> do {
          ftls \<leftarrow> get ss_forwardTLS;
          case ftls of
            None \<Rightarrow> bridge_ends N F H during (EpWrapped ref) (EpBackend be)
          | Some tls \<Rightarrow> do {
              r \<leftarrow> AcceptForward F (Some g) tls;
              case r of
                Inl e \<Rightarrow> do { _ \<leftarrow> CloseLocal_io H (EpBackend be); State_Monad.return () }
              | Inr fs \<Rightarrow> do {
                  (case fs_stream fs of
                     None \<Rightarrow> State_Monad.return ()
                   | Some fst' \<Rightarrow> bridge_ends N F H during (EpStream fst') (EpBackend be));
                  _ \<leftarrow> ForwardSession_Close F fs;
                  State_Monad.return ()
                }
            }
        })"

text \<open>
  The part after \<open>STREAM_ACCEPT\<close>: the wrapper, the mode, the bridge, the deferred close
  of the wrapper.
\<close>

definition serve_accepted ::
  "'e netlib \<Rightarrow> 's resume_lib \<Rightarrow> 'e fwdlib \<Rightarrow> 'e hostlib \<Rightarrow> ('e, 's, unit) sio \<Rightarrow> alloc_granted option option \<Rightarrow>
     ('e, 's, unit) sio \<Rightarrow> bool \<Rightarrow> uint64 \<Rightarrow> stream \<Rightarrow> nat \<Rightarrow> ('e, 's, unit) sio" where
  "serve_accepted N R F H others late during ena i st be = do {
     ref \<leftarrow> wrapStream R i st;
     others;
     granted \<leftarrow> (if ena then WaitForStreamMode late i else State_Monad.return None);
     serve_mode N F H during ref be granted;
     _ \<leftarrow> Close_stream N ref;
     State_Monad.return ()
   }"

definition handleIncoming ::
  "'e netlib \<Rightarrow> orp_lib \<Rightarrow> 's resume_lib \<Rightarrow> 'e fwdlib \<Rightarrow> 'e hostlib \<Rightarrow> ('e, 's, unit) sio \<Rightarrow>
     alloc_granted option option \<Rightarrow> ('e, 's, unit) sio \<Rightarrow> stream \<Rightarrow> ('e, 's, unit) sio" where
  "handleIncoming N L R F H others late during st = do {
     p \<leftarrow> ParseFrame_io N st;
     case p of
       Inl e \<Rightarrow> close_quietly N st
     | Inr f \<Rightarrow>
         if f_Type f \<noteq> FtIncomingStream then close_quietly N st
         else (case um_IncomingStream L f of
             Inl e \<Rightarrow> close_quietly N st
           | Inr i \<Rightarrow> do {
               h \<leftarrow> get (\<lambda>s. ss_handlers s (in_TargetService i));
               case h of
                 None \<Rightarrow> reject N st 404 (ErrorNew ''no handler'')
               | Some hnd \<Rightarrow> do {
                   b \<leftarrow> Handle_io H hnd i;
                   case b of
                     Inl e \<Rightarrow> reject N st 502 e
                   | Inr be \<Rightarrow> do {
                       ena \<leftarrow> get ss_p2pEnabled;
                       (if ena then do { _ \<leftarrow> RegisterStreamModeWaiter (in_StreamId i); State_Monad.return () }
                        else State_Monad.return ());
                       wr \<leftarrow> WriteFrame_io N st FtStreamAccept MStreamAccept;
                       case wr of
                         Some e \<Rightarrow> do {
                           (if ena then CancelStreamModeWaiter (in_StreamId i) else State_Monad.return ());
                           _ \<leftarrow> CloseLocal_io H (EpBackend be);
                           close_quietly N st
                         }
                       | None \<Rightarrow> serve_accepted N R F H others late during ena (in_StreamId i) st be
                     }
                 }
             })
   }"

section \<open>Actions that only add\<close>

text \<open>
  What an action may do to the world without harming a wrapper somebody holds: the
  table stays well-formed, the trace grows, no wrapper disappears or changes its
  identifier.
\<close>

definition grows :: "('e, 's) sworld \<Rightarrow> ('e, 's) sworld \<Rightarrow> bool" where
  "grows w w' \<longleftrightarrow> (streams_ok w \<longrightarrow> streams_ok w' \<and> (\<exists>new. trace w' = trace w @ new) \<and>
     (\<forall>ref rs. objs w ref = Some rs \<longrightarrow> (\<exists>rs'. objs w' ref = Some rs' \<and> rs_ID rs' = rs_ID rs)))"

definition tame :: "('e, 's, 'a) sio \<Rightarrow> bool" where
  "tame m \<longleftrightarrow> (\<forall>w. grows w (snd (run_state m w)))"

named_theorems tames \<open>rules for actions that only add\<close>

lemma grows_refl [simp]: "grows w w"
  by (simp add: grows_def)

lemma grows_trans: "grows w w1 \<Longrightarrow> grows w1 w2 \<Longrightarrow> grows w w2"
  unfolding grows_def by (metis append.assoc)

lemma tameD: "tame m \<Longrightarrow> run_state m w = (a, w') \<Longrightarrow> grows w w'"
  by (metis tame_def snd_conv)

lemma tame_bind [tames]: "tame m \<Longrightarrow> (\<And>a. tame (f a)) \<Longrightarrow> tame (State_Monad.bind m f)"
  unfolding tame_def by (auto simp: run_simps split: prod.split) (metis grows_trans snd_conv)

lemma tame_return [tames]: "tame (State_Monad.return a)"
  by (simp add: tame_def run_simps)

lemma tame_cases [tames]:
  "tame m \<Longrightarrow> (\<And>a. tame (f a)) \<Longrightarrow> tame (case x of None \<Rightarrow> m | Some a \<Rightarrow> f a)"
  "(\<And>a. tame (g a)) \<Longrightarrow> (\<And>b. tame (h b)) \<Longrightarrow> tame (case y of Inl a \<Rightarrow> g a | Inr b \<Rightarrow> h b)"
  "tame m1 \<Longrightarrow> tame m2 \<Longrightarrow> tame (if b then m1 else m2)"
  by (auto split: option.split sum.split)

lemma tame_observe [tames]: "tame (get f)" "tame (obs g)"
  by (simp_all add: tame_def run_simps)

lemma grows_outside:
  "grows w (w\<lparr>env := e, trace := trace w @ es\<rparr>)" "grows w (w\<lparr>trace := trace w @ es\<rparr>)"
  using tbl.outside [where w = w and e = "env w" and t = "trace w @ es"]
  by (simp_all add: grows_def tbl.outside tbl.keep_env)

lemma tame_act [tames]: "tame (act f ev)" "tame (emit e)"
  by (simp_all add: tame_def run_simps grows_outside)

lemma tame_keeps:
  assumes "preserves streams_ok m" and "\<And>w. trace (snd (run_state m w)) = trace w"
    and "\<And>w ref rs. objs w ref = Some rs \<Longrightarrow> \<exists>rs'. objs (snd (run_state m w)) ref = Some rs' \<and> rs_ID rs' = rs_ID rs"
  shows "tame m"
  using assms by (simp add: tame_def grows_def preserves_def)

lemma mark_abandoned_objs:
  "objs w ref = Some rs \<Longrightarrow> \<exists>rs'. objs (snd (run_state (mark_abandoned r) w)) ref = Some rs' \<and> rs_ID rs' = rs_ID rs"
  by (auto simp: mark_abandoned_def run_simps split: option.splits)

lemma tame_put_sess [tames]: "(\<And>s. ss_streams (f s) = ss_streams s) \<Longrightarrow> tame (put_sess f)"
  by (rule tame_keeps [OF keeps_sess_other]) (auto simp: run_simps)

lemma tame_upd:
  assumes "\<And>w. sess (f w) = sess w" "\<And>w. objs (f w) = objs w" "\<And>w. next_obj (f w) = next_obj w" "\<And>w. trace (f w) = trace w"
  shows "tame (upd f)"
  using assms by (intro tame_keeps keeps_upd_other) (auto simp: run_simps)

lemma tame_wrapStream [tames]: "tame (wrapStream R i st)"
  unfolding tame_def
proof (intro allI)
  fix w :: "('a, 'b) sworld"
  have "objs w (next_obj w) = None" if "streams_ok w" using that by (auto simp: streams_ok_def)
  then show "grows w (snd (run_state (wrapStream R i st) w))"
    using keeps_wrapStream [of R i st] by (auto simp: grows_def preserves_def wrapStream_def run_simps)
qed

lemma tame_io [tames]:
  "tame (Close_io N st)" "tame (ParseFrame_io N st)" "tame (WriteFrame_io N st t m)" "tame (Handle_io H h i)"
  "tame (CloseLocal_io H p)" "tame (CloseStream_io F st)"
  by (simp_all add: io_defs fwd_io_defs Handle_io_def CloseLocal_io_def tame_act)

lemma tame_open_plane [tames]: "tame (open_plane F g)"
  unfolding open_plane_def fwd_Dial_def DialWithLogger_def fwd_register_def fwd_io_defs Let_def
  by (intro tames)

lemma tame_AcceptForward [tames]: "tame (AcceptForward F g tls)"
  unfolding AcceptForward_def fwd_io_defs fwd_Close_def Let_def by (intro tames)

lemma tame_ForwardSession_Close [tames]: "tame (ForwardSession_Close F fs)"
  unfolding ForwardSession_Close_def close_part_def fwd_io_defs fwd_Close_def by (intro tames)

lemma tame_mode [tames]:
  "tame (RegisterStreamModeWaiter i)" "tame (CancelStreamModeWaiter i)" "tame (WaitForStreamMode late i)"
proof -
  show c: "tame (CancelStreamModeWaiter i)" for i :: uint64
    unfolding CancelStreamModeWaiter_def by (intro tames) simp
  show "tame (RegisterStreamModeWaiter i)"
    unfolding RegisterStreamModeWaiter_def by (intro tames tame_upd) simp_all
  show "tame (WaitForStreamMode late i)"
    unfolding WaitForStreamMode_def by (intro tames tame_upd c) simp_all
qed

text \<open>Closing a wrapper: it is abandoned and nobody finds it in the table any more.\<close>

lemma Close_stream_grows:
  assumes "streams_ok w" and "objs w ref = Some rs" and "run_state (Close_stream N ref) w = (e, w')"
  shows "grows w w'" and "\<exists>rs'. objs w' ref = Some rs' \<and> rs_ID rs' = rs_ID rs \<and> rs_abandoned rs'"
    and "ss_streams (sess w') j \<noteq> Some ref"
proof -
  let ?w1 = "snd (run_state (forgetStream (rs_ID rs)) w)" and ?w2 = "snd (run_state (mark_abandoned ref) (snd (run_state (forgetStream (rs_ID rs)) w)))"
  have ok1: "streams_ok ?w1" and tab: "ss_streams (sess ?w1) = (ss_streams (sess w))(rs_ID rs := None)"
    using forgetStream_run(1,2) [OF assms(1)] by blast+
  obtain rs1 where rs1: "objs ?w1 ref = Some rs1" "rs_ID rs1 = rs_ID rs"
    using forgetStream_run(3) [OF assms(1,2)] by blast
  have tr: "trace ?w1 = trace w" "trace ?w2 = trace w"
    by (auto simp: forgetStream_def mark_abandoned_def run_simps split: option.splits)
  have "\<exists>x env'. w' = ?w2\<lparr>env := env', trace := trace ?w2 @ [EvClose x]\<rparr>"
    using assms(2,3) by (auto simp: Close_stream_def run_simps split: prod.splits)
  then obtain x env' where w'_eq: "w' = ?w2\<lparr>env := env', trace := trace ?w2 @ [EvClose x]\<rparr>" by blast
  then have w': "objs w' = objs ?w2" "sess w' = sess ?w2" "trace w' = trace ?w2 @ [EvClose x]" by simp_all
  have sess2: "sess ?w2 = sess ?w1" by (auto simp: mark_abandoned_def run_simps split: option.splits)
  have objs2: "\<exists>rs'. objs ?w2 r = Some rs' \<and> rs_ID rs' = rs_ID rx" if "objs w r = Some rx" for r rx
    using forgetStream_run(3) [OF assms(1) that] mark_abandoned_objs by metis
  have "streams_ok w'" using preservesD [OF keeps_Close_stream assms(1,3)] .
  then show "grows w w'" using w' tr objs2 by (simp add: grows_def)
  show "\<exists>rs'. objs w' ref = Some rs' \<and> rs_ID rs' = rs_ID rs \<and> rs_abandoned rs'"
    using rs1 w'(1) by (auto simp: mark_abandoned_def run_simps)
  show "ss_streams (sess w') j \<noteq> Some ref"
    using streams_okD(1) [OF ok1, of j ref] rs1 tab w'(2) sess2 by (auto split: if_splits)
qed

lemma tame_Close_stream [tames]: "tame (Close_stream N ref)"
  unfolding tame_def
proof (intro allI)
  fix w :: "('a, 'b) sworld"
  show "grows w (snd (run_state (Close_stream N ref) w))"
  proof (cases "streams_ok w")
    case True
    show ?thesis
    proof (cases "objs w ref")
      case None
      then show ?thesis by (simp add: Close_stream_def run_simps)
    next
      case (Some rs)
      then show ?thesis using Close_stream_grows(1) [OF True] by (metis prod.collapse)
    qed
  qed (simp add: grows_def)
qed

lemma tame_bridge_ends [tames]: "tame during \<Longrightarrow> tame (bridge_ends N F H during a b)"
  unfolding bridge_ends_def close_endpoint_def by (intro tames) (cases a; cases b; simp add: tames)+

section \<open>Rejected and accepted streams\<close>

text \<open>
  A stream that cannot be served is refused with the right code and leaves no
  trace in the session: without a handler for the service the answer is 404, and if
  the handler fails it is 502 with the handler's error; either way the stream is
  closed right after, and session, wrappers and waiters are unchanged.
\<close>

theorem handleIncoming_rejects:
  assumes "nl_ParseFrame N st (env w) = (Inr f, e1)" and "f_Type f = FtIncomingStream"
    and "um_IncomingStream L f = Inr i"
    and "case ss_handlers (sess w) (in_TargetService i) of
        None \<Rightarrow> pre = [] \<and> code = 404 \<and> reason = ErrorNew ''no handler''
      | Some h \<Rightarrow> pre = [EvHandler h i None] \<and> code = 502 \<and> fst (hl_Handle H h i e1) = Inl reason"
  shows "\<exists>e' ok. run_state (handleIncoming N L R F H others late during st) w
    = ((), w\<lparr>env := e', trace := trace w @ [EvParse st True] @ pre
        @ [EvWriteFrame st FtStreamReject (MStreamReject code reason) ok, EvClose st]\<rparr>)"
  using assms
  by (cases "ss_handlers (sess w) (in_TargetService i)")
    (simp_all add: handleIncoming_def reject_def close_quietly_def run_simps, blast+)

lemma AcceptForward_stream:
  "run_state (AcceptForward F g tls) w = (Inr fs, w') \<Longrightarrow> \<exists>x. fs_stream fs = Some x"
  by (auto simp: AcceptForward_def run_simps split: sum.splits prod.splits)

lemma tame_serve_mode [tames]: "tame during \<Longrightarrow> tame (serve_mode N F H during ref be granted)"
  unfolding serve_mode_def by (intro tames)

text \<open>Actions in whose course some event happens.\<close>

definition happens :: "event \<Rightarrow> ('e, 's, 'a) sio \<Rightarrow> bool" where
  "happens ev m \<longleftrightarrow> (\<forall>w. streams_ok w \<longrightarrow> (\<exists>new. trace (snd (run_state m w)) = trace w @ new \<and> ev \<in> set new))"

lemma happensD:
  assumes "happens ev m" and "run_state m w = (a, w')" and "streams_ok w"
  shows "\<exists>new. trace w' = trace w @ new \<and> ev \<in> set new"
  using assms by (metis happens_def snd_conv)

lemma happens_first:
  assumes "happens ev m" and "tame m" and "\<And>a. tame (f a)"
  shows "happens ev (State_Monad.bind m f)"
  unfolding happens_def
proof (intro allI impI)
  fix w :: "('a, 'b) sworld" assume ok: "streams_ok w"
  obtain a w1 where m: "run_state m w = (a, w1)" by fastforce
  obtain new where new: "trace w1 = trace w @ new" "ev \<in> set new" using happensD [OF assms(1) m ok] by blast
  have "streams_ok w1" using tameD [OF assms(2) m] ok by (simp add: grows_def)
  then obtain new2 where "trace (snd (run_state (f a) w1)) = trace w1 @ new2"
    using assms(3) [of a] by (auto simp: tame_def grows_def)
  then show "\<exists>new. trace (snd (run_state (State_Monad.bind m f) w)) = trace w @ new \<and> ev \<in> set new"
    using m new by (intro exI [of _ "new @ new2"]) (simp add: run_simps)
qed

lemma happens_then:
  assumes "tame m" and "\<And>w a w'. run_state m w = (a, w') \<Longrightarrow> happens ev (f a)"
  shows "happens ev (State_Monad.bind m f)"
  unfolding happens_def
proof (intro allI impI)
  fix w :: "('a, 'b) sworld" assume ok: "streams_ok w"
  obtain a w1 where m: "run_state m w = (a, w1)" by fastforce
  obtain new where new: "trace w1 = trace w @ new" "streams_ok w1"
    using tameD [OF assms(1) m] ok by (auto simp: grows_def)
  obtain new2 where "trace (snd (run_state (f a) w1)) = trace w1 @ new2" "ev \<in> set new2"
    using assms(2) [OF m] new(2) by (auto simp: happens_def)
  then show "\<exists>new. trace (snd (run_state (State_Monad.bind m f) w)) = trace w @ new \<and> ev \<in> set new"
    using m new by (intro exI [of _ "new @ new2"]) (simp add: run_simps)
qed

lemma happens_close: "happens (EvLocalClose p) (CloseLocal_io H p)"
  by (simp add: happens_def run_simps)

lemma tame_close_endpoint [tames]: "tame (close_endpoint N F H p)"
  unfolding close_endpoint_def by (cases p) (simp_all add: tames)

lemma bridge_ends_closes:
  assumes "tame during"
  shows "happens (EvLocalClose (EpBackend be)) (bridge_ends N F H during a (EpBackend be))"
  unfolding bridge_ends_def
  by (intro happens_then tames assms happens_first) (simp_all add: close_endpoint_def happens_close tames)

lemma serve_mode_closes:
  assumes "tame during"
  shows "happens (EvLocalClose (EpBackend be)) (serve_mode N F H during ref be granted)"
proof -
  have fwd: "happens (EvLocalClose (EpBackend be)) (case r of
        Inl e \<Rightarrow> do { _ \<leftarrow> CloseLocal_io H (EpBackend be); State_Monad.return () }
      | Inr fs \<Rightarrow> do {
          (case fs_stream fs of
             None \<Rightarrow> State_Monad.return ()
           | Some fst' \<Rightarrow> bridge_ends N F H during (EpStream fst') (EpBackend be));
          _ \<leftarrow> ForwardSession_Close F fs;
          State_Monad.return ()
        })" if "run_state (AcceptForward F g tls) (w :: ('a, 'b) sworld) = (r, w')" for g tls w r w'
  proof (cases r)
    case (Inl e)
    then show ?thesis by (simp add: happens_first happens_close tames)
  next
    case (Inr fs)
    then obtain x where "fs_stream fs = Some x" using AcceptForward_stream \<open>_ = (r, w')\<close> by blast
    then show ?thesis using Inr by (simp add: happens_first bridge_ends_closes assms tames)
  qed
  show ?thesis
    unfolding serve_mode_def
    by (auto intro!: bridge_ends_closes assms happens_then tames fwd split: option.split)
qed

lemma serve_accepted_run:
  assumes "run_state (serve_accepted N R F H others late during ena i st be) w = (u, w')"
    and "streams_ok w" and "tame others" and "tame during"
  shows "streams_ok w' \<and> (\<exists>new. trace w' = trace w @ new \<and> EvLocalClose (EpBackend be) \<in> set new)
    \<and> (\<exists>rs. objs w' (next_obj w) = Some rs \<and> rs_ID rs = i \<and> rs_abandoned rs)
    \<and> (\<forall>j. ss_streams (sess w') j \<noteq> Some (next_obj w))"
proof -
  let ?ref = "next_obj w"
  obtain w1 where w1: "run_state (wrapStream R i st) w = (?ref, w1)" "map_option rs_ID (objs w1 ?ref) = Some i"
    by (simp add: wrapStream_def run_simps)
  obtain w2 where w2: "run_state others w1 = ((), w2)" by (cases "run_state others w1") simp
  obtain granted w3 where
    w3: "run_state (if ena then WaitForStreamMode late i else State_Monad.return None) w2 = (granted, w3)" by fastforce
  obtain w4 where w4: "run_state (serve_mode N F H during ?ref be granted) w3 = ((), w4)"
    by (cases "run_state (serve_mode N F H during ?ref be granted) w3") simp
  obtain e where w': "run_state (Close_stream N ?ref) w4 = (e, w')"
    using assms(1) w1 w2 w3 w4 by (auto simp: serve_accepted_def run_simps split: prod.splits)
  have g1: "grows w w1" using tameD [OF tame_wrapStream w1(1)] .
  have g3: "grows w1 w3"
    using tameD [OF assms(3) w2] tameD [OF tame_cases(3) [OF tame_mode(3) tame_return] w3] by (rule grows_trans)
  have g4: "grows w3 w4" using tameD [OF tame_serve_mode [OF assms(4)] w4] .
  have ok: "streams_ok w1" "streams_ok w3" "streams_ok w4" using assms(2) g1 g3 g4 by (auto simp: grows_def)
  obtain rs where rs: "objs w4 ?ref = Some rs" "rs_ID rs = i"
    using w1(2) ok grows_trans [OF g3 g4] by (fastforce simp: grows_def)
  note close = Close_stream_grows [OF ok(3) rs(1) w']
  obtain new4 where new4: "trace w4 = trace w3 @ new4" "EvLocalClose (EpBackend be) \<in> set new4"
    using happensD [OF serve_mode_closes [OF assms(4)] w4 ok(2)] by blast
  obtain new3 new' where "trace w3 = trace w @ new3" "trace w' = trace w4 @ new'"
    using grows_trans [OF g1 g3] assms(2) close(1) ok(3) by (auto simp: grows_def)
  then have "trace w' = trace w @ (new3 @ new4 @ new')" using new4(1) by simp
  moreover have "streams_ok w'" using close(1) ok(3) by (simp add: grows_def)
  ultimately show ?thesis using close(2,3) rs(2) new4(2) by fastforce
qed

text \<open>After \<open>STREAM_ACCEPT\<close> was sent, and when it could not be sent.\<close>

lemma handleIncoming_accepted:
  assumes "nl_ParseFrame N st (env w) = (Inr f, e1)" and "f_Type f = FtIncomingStream"
    and "um_IncomingStream L f = Inr i" and "ss_handlers (sess w) (in_TargetService i) = Some h"
    and "hl_Handle H h i e1 = (Inr be, e2)" and "nl_WriteFrame N st FtStreamAccept MStreamAccept e2 = (None, e3)"
    and "streams_ok w" and "tame others" and "tame during"
    and "run_state (handleIncoming N L R F H others late during st) w = (u, w')"
  shows "streams_ok w' \<and> (\<exists>new. trace w' = trace w
      @ [EvParse st True, EvHandler h i (Some be), EvWriteFrame st FtStreamAccept MStreamAccept True] @ new
      \<and> EvLocalClose (EpBackend be) \<in> set new)
    \<and> (\<exists>rs. objs w' (next_obj w) = Some rs \<and> rs_ID rs = in_StreamId i \<and> rs_abandoned rs)
    \<and> (\<forall>j. ss_streams (sess w') j \<noteq> Some (next_obj w))"
proof -
  let ?tr = "trace w @ [EvParse st True, EvHandler h i (Some be), EvWriteFrame st FtStreamAccept MStreamAccept True]"
  let ?ena = "ss_p2pEnabled (sess w)"
  let ?w0 = "w\<lparr>env := e2, trace := trace w @ [EvParse st True, EvHandler h i (Some be)]\<rparr>"
  let ?wr = "if ?ena then snd (run_state (RegisterStreamModeWaiter (in_StreamId i)) ?w0) else ?w0"
  let ?w3 = "?wr\<lparr>env := e3, trace := ?tr\<rparr>"
  have fields: "trace ?wr = trace ?w0" "env ?wr = e2" "next_obj ?wr = next_obj w"
    by (simp_all add: RegisterStreamModeWaiter_def run_simps)
  have run: "run_state (serve_accepted N R F H others late during ?ena (in_StreamId i) st be) ?w3 = (u, w')"
    using assms(1-6,10) fields
    by (cases ?ena) (simp_all add: handleIncoming_def RegisterStreamModeWaiter_def run_simps)
  have "streams_ok ?w0" using assms(7) by (simp add: tbl.outside)
  then have "streams_ok ?wr"
    using keeps_Register [where i = "in_StreamId i"] by (simp only: preserves_def split: if_split) blast
  then have "streams_ok ?w3" by (simp add: tbl.outside)
  from serve_accepted_run [OF run this assms(8,9)] fields show ?thesis by simp
qed

lemma handleIncoming_unaccepted:
  assumes "nl_ParseFrame N st (env w) = (Inr f, e1)" and "f_Type f = FtIncomingStream"
    and "um_IncomingStream L f = Inr i" and "ss_handlers (sess w) (in_TargetService i) = Some h"
    and "hl_Handle H h i e1 = (Inr be, e2)" and "nl_WriteFrame N st FtStreamAccept MStreamAccept e2 = (Some e, e3)"
    and "run_state (handleIncoming N L R F H others late during st) w = (u, w')"
  shows "trace w' = trace w @ [EvParse st True, EvHandler h i (Some be), EvWriteFrame st FtStreamAccept MStreamAccept False]
      @ [EvLocalClose (EpBackend be), EvClose st]"
    and "objs w' = objs w" and "next_obj w' = next_obj w" and "ss_streams (sess w') = ss_streams (sess w)"
    and "ss_p2pEnabled (sess w) \<Longrightarrow> mode_entry w' (in_StreamId i) = None"
  using assms
  by (cases "ss_p2pEnabled (sess w)"; auto simp: handleIncoming_def close_quietly_def RegisterStreamModeWaiter_def
      CancelStreamModeWaiter_def mode_entry_def waiter_def run_simps)+

text \<open>
  C10. A backend that was opened for an incoming stream is released whatever happens.  If
  \<open>STREAM_ACCEPT\<close> cannot be sent, \<open>handleIncoming\<close> closes backend and stream and leaves no
  waiter and no wrapper.  From \<open>STREAM_ACCEPT\<close> on, in splice mode, in forward mode or
  when forwarding fails, and whatever other goroutines do meanwhile, it ends with
  the backend closed and its wrapper abandoned and out of the table of active streams.
\<close>

theorem handleIncoming_releases:
  assumes "nl_ParseFrame N st (env w) = (Inr f, e1)" and "f_Type f = FtIncomingStream"
    and "um_IncomingStream L f = Inr i" and "ss_handlers (sess w) (in_TargetService i) = Some h"
    and "hl_Handle H h i e1 = (Inr be, e2)" and "nl_WriteFrame N st FtStreamAccept MStreamAccept e2 = (r, e3)"
    and "streams_ok w" and "tame others" and "tame during"
    and "run_state (handleIncoming N L R F H others late during st) w = (u, w')"
  shows "streams_ok w' \<and> (\<exists>new. trace w' = trace w
      @ [EvParse st True, EvHandler h i (Some be), EvWriteFrame st FtStreamAccept MStreamAccept (r = None)] @ new
      \<and> EvLocalClose (EpBackend be) \<in> set new \<and> (r \<noteq> None \<longrightarrow> EvClose st \<in> set new))
    \<and> (\<forall>j. ss_streams (sess w') j \<noteq> Some (next_obj w))
    \<and> (if r = None then \<exists>rs. objs w' (next_obj w) = Some rs \<and> rs_ID rs = in_StreamId i \<and> rs_abandoned rs
       else objs w' = objs w \<and> (ss_p2pEnabled (sess w) \<longrightarrow> mode_entry w' (in_StreamId i) = None))"
proof (cases r)
  case None
  then show ?thesis
    using handleIncoming_accepted [OF assms(1-5) assms(6) [unfolded None] assms(7-10)] by auto
next
  case (Some e)
  note ended = handleIncoming_unaccepted [OF assms(1-5) assms(6) [unfolded Some] assms(10)]
  have "ss_streams (sess w) j \<noteq> Some (next_obj w)" for j
    using streams_okD [OF assms(7)] by (metis less_irrefl)
  moreover have "streams_ok w'" using assms(7) ended(2-4) by (simp add: streams_ok_def)
  ultimately show ?thesis using ended Some by auto
qed

section \<open>Concrete runs\<close>

definition echo_host :: "'e hostlib" where
  "echo_host = \<lparr>hl_Handle = (\<lambda>h i e. (if h = 3 then Inr 30 else Inl NetClosed, e)), hl_Close = (\<lambda>p e. (None, e))\<rparr>"

definition asked_world :: "nat \<Rightarrow> (script, ring_view) sworld" where
  "asked_world h = start_sworld (idle_script\<lparr>sc_frames := [frame_of FtIncomingStream [9]]\<rparr>)
     ((new_session 1 2 ''u'' (SharedTransport 4))\<lparr>ss_handlers := [''svc-x'' \<mapsto> h]\<rparr>)"

lemmas asked_defs = asked_world_def start_sworld_def new_session_def script_defs echo_host_def

theorem handleIncoming_rejects_witness:
  "\<forall>F :: script fwdlib. \<exists>ok. trace (snd (run_state (handleIncoming scripted scripted_orp (list_ring 8) F echo_host
        (State_Monad.return ()) None (State_Monad.return ()) 5) (asked_world 4)))
    = [EvParse 5 True, EvHandler 4 \<lparr>in_StreamId = 9, in_TargetService = ''svc-x''\<rparr> None,
       EvWriteFrame 5 FtStreamReject (MStreamReject 502 NetClosed) ok, EvClose 5]"
proof
  fix F :: "script fwdlib"
  show "\<exists>ok. trace (snd (run_state (handleIncoming scripted scripted_orp (list_ring 8) F echo_host
        (State_Monad.return ()) None (State_Monad.return ()) 5) (asked_world 4)))
    = [EvParse 5 True, EvHandler 4 \<lparr>in_StreamId = 9, in_TargetService = ''svc-x''\<rparr> None,
       EvWriteFrame 5 FtStreamReject (MStreamReject 502 NetClosed) ok, EvClose 5]"
    using handleIncoming_rejects [where N = scripted and L = scripted_orp and R = "list_ring 8" and F = F
        and H = echo_host and others = "State_Monad.return ()" and during = "State_Monad.return ()" and late = None
        and st = 5 and w = "asked_world 4" and f = "\<lparr>f_Type = FtIncomingStream, f_Payload = [9]\<rparr>"
        and i = "\<lparr>in_StreamId = 9, in_TargetService = ''svc-x''\<rparr>" and ?e1.0 = idle_script
        and pre = "[EvHandler 4 \<lparr>in_StreamId = 9, in_TargetService = ''svc-x''\<rparr> None]"
        and code = 502 and reason = NetClosed]
    by (auto simp: asked_defs)
qed

theorem handleIncoming_releases_witness:
  "\<forall>F :: script fwdlib. \<exists>w'. run_state (handleIncoming scripted scripted_orp (list_ring 8) F echo_host
        (State_Monad.return ()) None (State_Monad.return ()) 5) (asked_world 3) = ((), w')
    \<and> EvLocalClose (EpBackend 30) \<in> set (trace w') \<and> (\<exists>rs. objs w' 0 = Some rs \<and> rs_ID rs = 9 \<and> rs_abandoned rs)
    \<and> (\<forall>j. ss_streams (sess w') j \<noteq> Some 0)"
proof
  fix F :: "script fwdlib"
  let ?run = "run_state (handleIncoming scripted scripted_orp (list_ring 8) F echo_host
        (State_Monad.return ()) None (State_Monad.return ()) 5) (asked_world 3)"
  obtain w' where run: "?run = ((), w')" by (cases ?run) simp
  have "streams_ok (asked_world 3)" "next_obj (asked_world 3) = 0" by (simp_all add: asked_defs streams_ok_def)
  then show "\<exists>w'. ?run = ((), w')
    \<and> EvLocalClose (EpBackend 30) \<in> set (trace w') \<and> (\<exists>rs. objs w' 0 = Some rs \<and> rs_ID rs = 9 \<and> rs_abandoned rs)
    \<and> (\<forall>j. ss_streams (sess w') j \<noteq> Some 0)"
    using handleIncoming_releases [OF _ _ _ _ _ _ _ tame_return tame_return run, where f = "\<lparr>f_Type = FtIncomingStream, f_Payload = [9]\<rparr>"
        and i = "\<lparr>in_StreamId = 9, in_TargetService = ''svc-x''\<rparr>" and ?e1.0 = idle_script and ?e2.0 = idle_script
        and ?e3.0 = idle_script and h = 3 and be = 30] run
    by (simp add: asked_defs) auto
qed

end
