(* ===== verification/VIP.thy ===== *)
theory VIP
  imports Netip
begin

text \<open>
  \<open>pkg/intercept/vip.go\<close>: the allocator that hands out virtual IP addresses for
  service names, with its forward and reverse lookup.  The invariant
  \<open>vip_inv\<close> says that the two maps are inverse to each other and that the
  addresses handed out are exactly the usable addresses of the pool below the
  scan position; every operation keeps it.  The locale \<open>name_table\<close> is the
  contract the DNS server and the transparent proxy rely on.
\<close>

section \<open>State and operations\<close>

definition DefaultVIPCIDR :: string where
  "DefaultVIPCIDR = ''100.64.0.0/10''"

record vip_allocator =
  pool :: prefix
  nameToIP :: "string \<rightharpoonup> addr"
  ipToName :: "addr \<rightharpoonup> string"
  next_ip :: addr

definition NewVIPAllocator :: "string \<Rightarrow> go_error + vip_allocator" where
  "NewVIPAllocator cidr = (case ParsePrefix cidr of
       None \<Rightarrow> Inl (Wrapf ''intercept: parse'' (ErrorNew cidr))
     | Some pfx \<Rightarrow>
         if \<not> Is4 (fst pfx) then Inl (ErrorNew ''intercept: only IPv4 VIP ranges supported'')
         else Inr \<lparr>pool = Masked pfx, nameToIP = Map.empty, ipToName = Map.empty,
                   next_ip = Next (fst (Masked pfx))\<rparr>)"

definition isUsable :: "addr \<Rightarrow> go_error + bool" where
  "isUsable ip = (case As4 ip of
       None \<Rightarrow> Inl (Panic ''As4 called on IPv6 address'')
     | Some b \<Rightarrow> if b ! 3 = 0 \<or> b ! 3 = 255 then Inr False else Inr True)"

text \<open>The scan of \<open>Allocate\<close> stops because the position only grows.\<close>

fun room :: "addr \<Rightarrow> nat" where
  "room AddrZero = 0"
| "room (Addr4 w) = 2 ^ 32 - unat w"
| "room (Addr6 w z) = 2 ^ 128 - unat w"

lemma room_Next: "IsValid ip \<Longrightarrow> room (Next ip) < room ip"
proof (cases ip)
  case (Addr4 w)
  then show ?thesis
    using unsigned_less [of w, where ?'a = nat]
    by (auto simp: unat_plus_one)
next
  case (Addr6 w z)
  then show ?thesis
    using unsigned_less [of w, where ?'a = nat]
    by (auto simp: unat_plus_one)
qed (simp add: IsValid_def)

lemma Contains_IsValid: "Contains p ip \<Longrightarrow> IsValid ip"
  by (cases "(p, ip)" rule: Contains.cases) (auto simp: IsValid_def)

function alloc_scan :: "string \<Rightarrow> vip_allocator \<Rightarrow> (go_error + addr) \<times> vip_allocator" where
  "alloc_scan name a =
     (if \<not> Contains (pool a) (next_ip a)
      then (Inl (ErrorNew ''intercept: VIP pool exhausted''), a)
      else let ip = next_ip a; a1 = a\<lparr>next_ip := Next (next_ip a)\<rparr> in
        (case isUsable ip of
           Inl e \<Rightarrow> (Inl e, a1)
         | Inr usable \<Rightarrow>
             if \<not> usable then alloc_scan name a1
             else if ipToName a1 ip \<noteq> None then alloc_scan name a1
             else (Inr ip, a1\<lparr>nameToIP := (nameToIP a1)(name \<mapsto> ip),
                              ipToName := (ipToName a1)(ip \<mapsto> name)\<rparr>)))"
  by pat_completeness auto
termination
  by (relation "measure (\<lambda>(name, a). room (next_ip a))")
    (auto intro!: room_Next dest: Contains_IsValid)

declare alloc_scan.simps [simp del] Next.simps(2) [simp del] Contains.simps(1) [simp del]

definition Allocate :: "string \<Rightarrow> vip_allocator \<Rightarrow> (go_error + addr) \<times> vip_allocator" where
  "Allocate name a = (case nameToIP a name of
       Some ip \<Rightarrow> (Inr ip, a)
     | None \<Rightarrow> alloc_scan name a)"

definition LookupName :: "vip_allocator \<Rightarrow> string \<Rightarrow> addr option" where
  "LookupName a name = nameToIP a name"

definition Lookup :: "vip_allocator \<Rightarrow> addr \<Rightarrow> string" where
  "Lookup a vip = (case ipToName a vip of None \<Rightarrow> [] | Some n \<Rightarrow> n)"

definition Len :: "vip_allocator \<Rightarrow> nat" where
  "Len a = card (dom (nameToIP a))"

text \<open>
  The start-up loop of \<open>startInterceptor\<close> that allocates an address for every
  consumed service, for an allocation operation \<open>al\<close>.
\<close>

fun alloc_all ::
  "(string \<Rightarrow> 's \<Rightarrow> (go_error + addr) \<times> 's) \<Rightarrow> string list \<Rightarrow> 's \<Rightarrow> go_error option \<times> 's" where
  "alloc_all al [] s = (None, s)"
| "alloc_all al (svc # svcs) s = (case al svc s of
       (Inl e, s') \<Rightarrow> (Some (Wrapf (''allocate vip for '' @ svc) e), s')
     | (Inr vip, s') \<Rightarrow> alloc_all al svcs s')"

section \<open>Invariant\<close>

text \<open>
  \<open>passed p ip\<close> are the usable addresses of the pool \<open>p\<close>, after its network
  address, that the scan position \<open>ip\<close> has passed.
\<close>

definition usable4 :: "uint32 \<Rightarrow> bool" where
  "usable4 w = (ucast w \<noteq> (0::byte) \<and> ucast w \<noteq> (255::byte))"

definition in_pool :: "prefix \<Rightarrow> uint32 \<Rightarrow> bool" where
  "in_pool p w = (Contains p (Addr4 w) \<and> usable4 w \<and> (case fst p of Addr4 b \<Rightarrow> b < w | _ \<Rightarrow> False))"

definition before :: "uint32 \<Rightarrow> addr \<Rightarrow> bool" where
  "before w ip = (case ip of AddrZero \<Rightarrow> True | Addr4 v \<Rightarrow> w < v | Addr6 _ _ \<Rightarrow> False)"

definition passed :: "prefix \<Rightarrow> addr \<Rightarrow> addr set" where
  "passed p ip = Addr4 ` {w. in_pool p w \<and> before w ip}"

definition next_ok :: "uint32 \<Rightarrow> addr \<Rightarrow> bool" where
  "next_ok b ip = (case ip of AddrZero \<Rightarrow> True | Addr4 w \<Rightarrow> b < w | Addr6 _ _ \<Rightarrow> False)"

definition vip_inv :: "vip_allocator \<Rightarrow> bool" where
  "vip_inv a =
     ((\<exists>b n. pool a = (Addr4 b, n) \<and> n \<le> 32 \<and> Masked (pool a) = pool a \<and> next_ok b (next_ip a))
      \<and> (\<forall>name ip. nameToIP a name = Some ip \<longleftrightarrow> ipToName a ip = Some name)
      \<and> dom (ipToName a) = passed (pool a) (next_ip a))"

lemma isUsable_Addr4 [simp]: "isUsable (Addr4 w) = Inr (usable4 w)"
  by (simp add: isUsable_def usable4_def PutUint32_def)

lemma Contains_Addr4:
  "Contains (Addr4 b, n) (Addr4 w) \<longleftrightarrow> drop_bit (32 - n) w = drop_bit (32 - n) b"
  by (simp add: Contains.simps drop_bit_xor xor_eq_0_iff_eq)

text \<open>A prefix is convex above its network address.\<close>

lemma Contains_convex:
  assumes "Contains (Addr4 b, n) (Addr4 w)" and "b \<le> v" and "v \<le> w"
  shows "Contains (Addr4 b, n) (Addr4 v)"
proof -
  have "drop_bit (32 - n) b \<le> drop_bit (32 - n) v" "drop_bit (32 - n) v \<le> drop_bit (32 - n) w"
    using assms(2,3) by (simp_all add: drop_bit_word_mono)
  then show ?thesis using assms(1) by (simp add: Contains_Addr4)
qed

lemma before_simps [simp]:
  "before v AddrZero" "before v (Addr4 w) \<longleftrightarrow> v < w"
  by (simp_all add: before_def)

lemma before_Next: "before v (Next (Addr4 w)) \<longleftrightarrow> v \<le> w"
proof (cases "w + 1 = 0")
  case True
  then have "w = - 1" by (simp add: eq_neg_iff_add_eq_0)
  then show ?thesis by (simp add: Next.simps)
next
  case False
  then show ?thesis
    by (simp add: Next.simps word_less_nat_alt word_le_nat_alt unat_plus_one less_Suc_eq_le)
qed

lemma passed_Next:
  assumes "Contains (Addr4 b, n) (Addr4 w)" and "b < w"
  shows "passed (Addr4 b, n) (Next (Addr4 w)) =
    (if usable4 w then insert (Addr4 w) (passed (Addr4 b, n) (Addr4 w)) else passed (Addr4 b, n) (Addr4 w))"
  using assms
  by (auto simp: passed_def before_Next in_pool_def order_le_less)

lemma next_ok_Next: "b < w \<Longrightarrow> next_ok b (Next (Addr4 w))"
  by (auto simp: next_ok_def Next.simps word_less_nat_alt unat_plus_one)

section \<open>The scan\<close>

text \<open>
  \<open>free a\<close> are the pool addresses nobody holds.  The scan hands out the least
  of them, and reports exhaustion exactly when there is none.
\<close>

definition free :: "vip_allocator \<Rightarrow> uint32 set" where
  "free a = {w. in_pool (pool a) w \<and> ipToName a (Addr4 w) = None}"

definition scan_ok :: "string \<Rightarrow> vip_allocator \<Rightarrow> (go_error + addr) \<times> vip_allocator \<Rightarrow> bool" where
  "scan_ok name a r = (case r of
       (Inl e, a') \<Rightarrow> e = ErrorNew ''intercept: VIP pool exhausted'' \<and> free a = {}
          \<and> vip_inv a' \<and> pool a' = pool a \<and> nameToIP a' = nameToIP a \<and> ipToName a' = ipToName a
     | (Inr ip, a') \<Rightarrow> (\<exists>w. ip = Addr4 w \<and> w \<in> free a \<and> (\<forall>v \<in> free a. w \<le> v))
          \<and> vip_inv a' \<and> pool a' = pool a \<and> nameToIP a' = (nameToIP a)(name \<mapsto> ip)
          \<and> ipToName a' = (ipToName a)(ip \<mapsto> name))"

lemma free_next [simp]: "free (a\<lparr>next_ip := ip\<rparr>) = free a"
  by (simp add: free_def)

lemma scan_ok_next [simp]: "scan_ok name (a\<lparr>next_ip := ip\<rparr>) r = scan_ok name a r"
  by (simp add: scan_ok_def split: prod.splits sum.splits)

lemma free_eq:
  assumes "vip_inv a"
  shows "free a = {w. in_pool (pool a) w \<and> \<not> before w (next_ip a)}"
proof -
  have "ipToName a (Addr4 w) = None \<longleftrightarrow> Addr4 w \<notin> passed (pool a) (next_ip a)" for w
    using assms by (metis vip_inv_def domIff)
  then show ?thesis by (auto simp: free_def passed_def)
qed

lemma vip_inv_pool:
  assumes "vip_inv a" and "Contains (pool a) (next_ip a)"
  obtains b n w where "pool a = (Addr4 b, n)" "next_ip a = Addr4 w" "b < w"
  using assms by (cases "next_ip a") (auto simp: vip_inv_def next_ok_def)

lemma vip_inv_skip:
  assumes inv: "vip_inv a" and c: "Contains (pool a) (next_ip a)"
    and u: "next_ip a = Addr4 w" "\<not> usable4 w"
  shows "vip_inv (a\<lparr>next_ip := Next (next_ip a)\<rparr>)"
proof -
  obtain b n where p: "pool a = (Addr4 b, n)" "b < w"
    using inv c u by (auto elim: vip_inv_pool)
  then show ?thesis
    using inv u c by (auto simp: vip_inv_def passed_Next next_ok_Next simp del: Masked.simps)
qed

lemma vip_inv_take:
  assumes inv: "vip_inv a" and c: "Contains (pool a) (next_ip a)"
    and u: "next_ip a = Addr4 w" "usable4 w" and fresh: "nameToIP a name = None"
  shows "vip_inv (a\<lparr>next_ip := Next (next_ip a), nameToIP := (nameToIP a)(name \<mapsto> Addr4 w),
      ipToName := (ipToName a)(Addr4 w \<mapsto> name)\<rparr>)"
proof -
  obtain b n where p: "pool a = (Addr4 b, n)" "b < w"
    using inv c u by (auto elim: vip_inv_pool)
  have "Addr4 w \<notin> dom (ipToName a)"
    using inv u by (auto simp: vip_inv_def passed_def)
  moreover have "ipToName a ip \<noteq> Some name" for ip
    using inv fresh by (metis vip_inv_def option.distinct(1))
  ultimately show ?thesis
    using inv u c p fresh
    by (auto simp: vip_inv_def passed_Next next_ok_Next simp del: Masked.simps)
qed

lemma free_exhausted:
  assumes inv: "vip_inv a" and c: "\<not> Contains (pool a) (next_ip a)"
  shows "free a = {}"
proof (rule ccontr)
  assume "free a \<noteq> {}"
  then obtain w where w: "in_pool (pool a) w" "\<not> before w (next_ip a)"
    using free_eq [OF inv] by auto
  obtain b n where p: "pool a = (Addr4 b, n)" "next_ok b (next_ip a)"
    using inv by (auto simp: vip_inv_def)
  with w obtain v where v: "next_ip a = Addr4 v" "b < v" "v \<le> w"
    by (cases "next_ip a") (auto simp: next_ok_def)
  then have "Contains (pool a) (Addr4 v)"
    using w p by (auto simp: in_pool_def intro: Contains_convex)
  with c v show False by simp
qed

lemma free_least:
  assumes inv: "vip_inv a" and c: "Contains (pool a) (next_ip a)"
    and w: "next_ip a = Addr4 w" "usable4 w"
  shows "w \<in> free a" and "\<forall>v \<in> free a. w \<le> v"
proof -
  obtain b n where p: "pool a = (Addr4 b, n)" "b < w"
    using inv c w by (auto elim: vip_inv_pool)
  then show "w \<in> free a" "\<forall>v \<in> free a. w \<le> v"
    using c w by (auto simp: free_eq [OF inv] in_pool_def)
qed

lemma scan_ok_alloc_scan: "vip_inv a \<Longrightarrow> nameToIP a name = None \<Longrightarrow> scan_ok name a (alloc_scan name a)"
proof (induction name a rule: alloc_scan.induct)
  case (1 name a)
  show ?case
  proof (cases "Contains (pool a) (next_ip a)")
    case False
    then show ?thesis
      using 1 free_exhausted [of a] by (simp add: alloc_scan.simps [of name a] scan_ok_def)
  next
    case True
    obtain b n w where w: "pool a = (Addr4 b, n)" "next_ip a = Addr4 w" "b < w"
      using vip_inv_pool [OF 1(3) True] .
    show ?thesis
    proof (cases "usable4 w")
      case False
      let ?a1 = "a\<lparr>next_ip := Next (next_ip a)\<rparr>"
      have "scan_ok name ?a1 (alloc_scan name ?a1)"
        using 1 True False w vip_inv_skip [OF 1(3) True] by simp
      then show ?thesis
        using True False w by (simp add: alloc_scan.simps [of name a])
    next
      case u: True
      have "ipToName a (Addr4 w) = None"
        using free_least(1) [OF 1(3) True w(2) u] by (simp add: free_def)
      then have "alloc_scan name a = (Inr (Addr4 w),
          a\<lparr>next_ip := Next (next_ip a), nameToIP := (nameToIP a)(name \<mapsto> Addr4 w),
            ipToName := (ipToName a)(Addr4 w \<mapsto> name)\<rparr>)"
        using True u w by (simp add: alloc_scan.simps [of name a])
      then show ?thesis
        using vip_inv_take [OF 1(3) True w(2) u 1(4)] free_least [OF 1(3) True w(2) u]
        by (simp add: scan_ok_def)
    qed
  qed
qed

section \<open>The contract of the allocator\<close>

text \<open>
  What the clients rely on: a table from names to addresses that only grows, in
  which no two names share an address, and whose reverse lookup finds the name
  back (the empty name is how the reverse lookup reports a miss).
\<close>

locale name_table =
  fixes alloc :: "string \<Rightarrow> 's \<Rightarrow> (go_error + addr) \<times> 's"
    and by_name :: "'s \<Rightarrow> string \<Rightarrow> addr option"
    and by_addr :: "'s \<Rightarrow> addr \<Rightarrow> string"
    and ok :: "'s \<Rightarrow> bool"
  assumes ok_alloc: "ok s \<Longrightarrow> ok (snd (alloc n s))"
    and alloc_Inr: "ok s \<Longrightarrow> alloc n s = (Inr ip, s') \<Longrightarrow> by_name s' = (by_name s)(n \<mapsto> ip)"
    and alloc_Inl: "ok s \<Longrightarrow> alloc n s = (Inl e, s') \<Longrightarrow> by_name s' = by_name s"
    and alloc_known: "ok s \<Longrightarrow> by_name s n = Some ip \<Longrightarrow> alloc n s = (Inr ip, s)"
    and inverse: "ok s \<Longrightarrow> n \<noteq> [] \<Longrightarrow> by_addr s ip = n \<longleftrightarrow> by_name s n = Some ip"
begin

lemma alloc_extends: "ok s \<Longrightarrow> by_name s \<subseteq>\<^sub>m by_name (snd (alloc n s))"
proof (cases "alloc n s")
  case (Pair r s')
  assume ok: "ok s"
  show ?thesis
  proof (cases r)
    case (Inr ip)
    then have s': "by_name s' = (by_name s)(n \<mapsto> ip)"
      using ok Pair alloc_Inr by simp
    have "by_name s n = Some jp \<Longrightarrow> jp = ip" for jp
      using ok Pair Inr alloc_known [of s n jp] by simp
    then show ?thesis using s' Pair by (auto simp: map_le_def)
  qed (use ok Pair alloc_Inl in \<open>simp add: map_le_def\<close>)
qed

lemma by_name_inj: "ok s \<Longrightarrow> n \<noteq> [] \<Longrightarrow> by_name s n = Some ip \<Longrightarrow> by_name s m = Some ip \<Longrightarrow> m \<noteq> [] \<Longrightarrow> m = n"
  using inverse by metis

lemma alloc_all_ok:
  "ok s \<Longrightarrow> ok (snd (alloc_all alloc svcs s)) \<and> by_name s \<subseteq>\<^sub>m by_name (snd (alloc_all alloc svcs s))"
proof (induction svcs arbitrary: s)
  case (Cons svc svcs)
  obtain r s' where a: "alloc svc s = (r, s')" by (cases "alloc svc s")
  then have "ok s'" "by_name s \<subseteq>\<^sub>m by_name s'"
    using Cons.prems ok_alloc [of s svc] alloc_extends [of s svc] by simp_all
  then show ?case
    using Cons.IH [of s'] a by (cases r) (auto intro: map_le_trans)
qed simp

lemma alloc_all_resolves:
  assumes "ok s" and "alloc_all alloc svcs s = (None, s')" and "svc \<in> set svcs" and "svc \<noteq> []"
  shows "\<exists>ip. by_name s' svc = Some ip \<and> by_addr s' ip = svc"
  using assms(1-3)
proof (induction svcs arbitrary: s)
  case (Cons x svcs)
  obtain ip s1 where a: "alloc x s = (Inr ip, s1)" and rest: "alloc_all alloc svcs s1 = (None, s')"
    using Cons.prems(2) by (auto split: prod.splits sum.splits)
  have ok1: "ok s1" using ok_alloc [OF Cons.prems(1), of x] a by simp
  show ?case
  proof (cases "svc = x")
    case True
    then have "by_name s1 svc = Some ip"
      using alloc_Inr [OF Cons.prems(1) a] by simp
    moreover have "ok s'" "by_name s1 \<subseteq>\<^sub>m by_name s'"
      using alloc_all_ok [OF ok1, of svcs] rest by simp_all
    ultimately have "by_name s' svc = Some ip"
      by (metis domI map_le_def)
    then show ?thesis using inverse \<open>ok s'\<close> assms(4) by blast
  next
    case False
    then show ?thesis using Cons.IH [OF ok1 rest] Cons.prems(3) by simp
  qed
qed simp

end

lemma scan_ok_Allocate:
  "vip_inv a \<Longrightarrow> nameToIP a name = None \<Longrightarrow> scan_ok name a (Allocate name a)"
  by (simp add: Allocate_def scan_ok_alloc_scan)

lemma vip_inv_inverse: "vip_inv a \<Longrightarrow> nameToIP a n = Some ip \<longleftrightarrow> ipToName a ip = Some n"
  by (simp add: vip_inv_def)

interpretation vip: name_table Allocate LookupName Lookup vip_inv
proof unfold_locales
  fix a n ip a' e
  assume inv: "vip_inv a"
  note scan = scan_ok_Allocate [OF inv, unfolded scan_ok_def]
  show "vip_inv (snd (Allocate n a))"
    using inv scan [of n] by (cases "nameToIP a n") (auto simp: Allocate_def split: prod.splits sum.splits)
  show "LookupName a' = (LookupName a)(n \<mapsto> ip)" if "Allocate n a = (Inr ip, a')"
    using that scan [of n] by (cases "nameToIP a n") (auto simp: Allocate_def LookupName_def)
  show "LookupName a' = LookupName a" if "Allocate n a = (Inl e, a')"
    using that scan [of n] by (cases "nameToIP a n") (auto simp: Allocate_def LookupName_def)
  show "Allocate n a = (Inr ip, a)" if "LookupName a n = Some ip"
    using that by (simp add: Allocate_def LookupName_def)
  show "Lookup a ip = n \<longleftrightarrow> LookupName a n = Some ip" if "n \<noteq> []"
    using that vip_inv_inverse [OF inv, of n ip]
    by (auto simp: Lookup_def LookupName_def split: option.splits)
qed

section \<open>Reachable allocators\<close>

text \<open>An allocator in use: built by \<open>NewVIPAllocator\<close>, then any sequence of \<open>Allocate\<close> calls.\<close>

inductive vip_reachable :: "string \<Rightarrow> vip_allocator \<Rightarrow> bool" for cidr :: string where
  vip_new: "NewVIPAllocator cidr = Inr a \<Longrightarrow> vip_reachable cidr a"
| vip_allocate: "vip_reachable cidr a \<Longrightarrow> vip_reachable cidr (snd (Allocate name a))"

lemma Masked_idem [simp]: "Masked (Masked p) = Masked p"
proof (cases p rule: Masked.cases)
  case (1 w n)
  then show ?thesis by (simp add: push_drop_idem)
next
  case (2 w z n)
  then show ?thesis by (simp add: push_drop_idem)
qed simp

lemma ParseUint_le: "ParseUint s m = Some v \<Longrightarrow> v \<le> m"
  by (auto simp: ParseUint_def split: option.splits if_splits)

lemma ParsePrefix_bits: "ParsePrefix s = Some (a, n) \<Longrightarrow> n \<le> (if Is6 a then 128 else 32)"
  by (auto simp: ParsePrefix_def split: option.splits if_splits dest: ParseUint_le)

lemma next_ok_Next_base: "next_ok b (Next (Addr4 b))"
  by (auto simp: next_ok_def Next.simps word_less_nat_alt unat_plus_one)

lemma passed_Next_base: "passed (Addr4 b, n) (Next (Addr4 b)) = {}"
  by (auto simp: passed_def before_Next in_pool_def)

lemma NewVIPAllocator_inv:
  assumes "NewVIPAllocator cidr = Inr a"
  shows "vip_inv a"
proof -
  obtain w n where p: "ParsePrefix cidr = Some (Addr4 w, n)"
      and a: "a = \<lparr>pool = Masked (Addr4 w, n), nameToIP = Map.empty, ipToName = Map.empty,
        next_ip = Next (fst (Masked (Addr4 w, n)))\<rparr>"
    using assms by (auto simp: NewVIPAllocator_def elim!: Is4.elims split: option.splits if_splits)
  then show ?thesis
    using ParsePrefix_bits [OF p] Masked_idem [of "(Addr4 w, n)"]
    by (simp add: vip_inv_def next_ok_Next_base passed_Next_base)
qed

lemma vip_reachable_inv: "vip_reachable cidr a \<Longrightarrow> vip_inv a"
  by (induction rule: vip_reachable.induct) (auto intro: NewVIPAllocator_inv vip.ok_alloc)

section \<open>The default pool\<close>

lemma ParsePrefix_default: "ParsePrefix DefaultVIPCIDR = Some (Addr4 1681915904, 10)"
  by code_simp

lemma NewVIPAllocator_default:
  "NewVIPAllocator DefaultVIPCIDR = Inr \<lparr>pool = (Addr4 1681915904, 10),
     nameToIP = Map.empty, ipToName = Map.empty, next_ip = Addr4 1681915905\<rparr>"
  by (simp add: NewVIPAllocator_def ParsePrefix_default Next.simps(2))

lemma pool_Allocate: "vip_inv a \<Longrightarrow> pool (snd (Allocate name a)) = pool a"
  using scan_ok_Allocate [of a name]
  by (cases "nameToIP a name") (auto simp: Allocate_def scan_ok_def split: prod.splits sum.splits)

lemma vip_reachable_default_pool: "vip_reachable DefaultVIPCIDR a \<Longrightarrow> pool a = (Addr4 1681915904, 10)"
  by (induction rule: vip_reachable.induct)
    (auto simp: NewVIPAllocator_default pool_Allocate dest: vip_reachable_inv)

lemma in_default_pool:
  "in_pool (Addr4 1681915904, 10) w \<longleftrightarrow>
     unat w div 4194304 = 401 \<and> unat w mod 256 \<noteq> 0 \<and> unat w mod 256 \<noteq> 255"
proof -
  have a: "drop_bit 22 w = drop_bit 22 1681915904 \<longleftrightarrow> unat w div 4194304 = 401"
    by (simp add: word_unat_eq_iff unat_drop_bit_eq drop_bit_nat_def)
  have b: "usable4 w \<longleftrightarrow> unat w mod 256 \<noteq> 0 \<and> unat w mod 256 \<noteq> 255"
    by (simp add: usable4_def word_unat_eq_iff unsigned_ucast_eq take_bit_nat_def)
  have c: "m div 4194304 = 401 \<Longrightarrow> m mod 256 \<noteq> 0 \<Longrightarrow> 1681915904 < m" for m :: nat
    by (cases "m = 1681915904") auto
  show ?thesis
    using a b c [of "unat w"] by (auto simp: in_pool_def Contains_Addr4 word_less_nat_alt)
qed

text \<open>The pool has \<open>16384\<close> blocks of \<open>254\<close> usable addresses.\<close>

lemma card_default_pool: "card {w. in_pool (Addr4 1681915904, 10) w} = 4161536"
proof -
  let ?f = "\<lambda>(k, l). of_nat (1681915904 + 256 * k + l) :: uint32"
  let ?D = "{..<16384::nat} \<times> {1..254::nat}"
  have u: "unat (?f (k, l)) = 1681915904 + 256 * k + l" if "(k, l) \<in> ?D" for k l
    unfolding prod.case using that by (intro unat_of_nat_small) auto
  have inj: "inj_on ?f ?D"
  proof (rule inj_onI)
    fix p q
    assume pq: "p \<in> ?D" "q \<in> ?D" "?f p = ?f q"
    obtain k l k' l' where p: "p = (k, l)" and q: "q = (k', l')" by (cases p, cases q)
    with pq have kl: "(k, l) \<in> ?D" "(k', l') \<in> ?D" and eq: "?f (k, l) = ?f (k', l')" by blast+
    have "1681915904 + 256 * k + l = 1681915904 + 256 * k' + l'"
      using arg_cong [OF eq, of unat] unfolding u [OF kl(1)] u [OF kl(2)] .
    then have "256 * k + l = 256 * k' + l'" by simp
    moreover have "l < 256" "l' < 256" using kl by auto
    ultimately have "(256 * k + l) div 256 = k'" "(256 * k + l) mod 256 = l'" by simp_all
    then show "p = q" using p q \<open>l < 256\<close> by simp
  qed
  have "?f ` ?D = {w. in_pool (Addr4 1681915904, 10) w}"
  proof (intro equalityI subsetI CollectI)
    fix w assume "w \<in> ?f ` ?D"
    then obtain k l where kl: "(k, l) \<in> ?D" and w: "w = ?f (k, l)" by blast
    have "1681915904 + 256 * k + l = 256 * (6569984 + k) + l" by simp
    then have "(1681915904 + 256 * k + l) mod 256 = l" using kl by (simp only: mod_mult_self4) simp
    then show "in_pool (Addr4 1681915904, 10) w"
      unfolding in_default_pool w u [OF kl] using kl by auto
  next
    fix w assume "w \<in> {w. in_pool (Addr4 1681915904, 10) w}"
    then have d: "unat w div 4194304 = 401" "unat w mod 256 \<noteq> 0" "unat w mod 256 \<noteq> 255"
      by (simp_all add: in_default_pool)
    then have le: "1681915904 \<le> unat w" "unat w < 1681915904 + 4194304" by auto
    then obtain m where m: "unat w = 1681915904 + m" using le_Suc_ex by blast
    have "(m + 6569984 * 256) mod 256 = m mod 256" by (rule mod_mult_self1)
    then have "(1681915904 + m) mod 256 = m mod 256" by (simp add: add.commute)
    then have "m mod 256 \<noteq> 0" "m mod 256 \<noteq> 255" "m < 4194304" using m le d by simp_all
    moreover from this have "m div 256 < 16384" "m mod 256 < 256" by simp_all
    ultimately have "(m div 256, m mod 256) \<in> ?D" unfolding mem_Times_iff fst_conv snd_conv by simp
    moreover have "1681915904 + 256 * (m div 256) + m mod 256 = unat w" using m by simp
    then have "w = ?f (m div 256, m mod 256)"
      by (simp only: prod.case word_of_nat_unat)
    ultimately show "w \<in> ?f ` ?D" by (intro rev_image_eqI)
  qed
  then have "card {w. in_pool (Addr4 1681915904, 10) w} = card ?D"
    using card_image [OF inj] by simp
  then show ?thesis by (simp add: card_cartesian_product)
qed

text \<open>As many names as addresses are held.\<close>

lemma Len_held:
  assumes "vip_inv a"
  shows "Len a = card {w. in_pool (pool a) w \<and> w \<notin> free a}"
proof -
  have dom: "dom (ipToName a) = passed (pool a) (next_ip a)"
    using assms by (simp add: vip_inv_def)
  have i: "nameToIP a n = Some ip \<Longrightarrow> ipToName a ip = Some n" for n ip
    using vip_inv_inverse [OF assms] by blast
  have j: "ipToName a ip = Some n \<Longrightarrow> nameToIP a n = Some ip" for n ip
    using vip_inv_inverse [OF assms] by blast
  have "bij_betw (the \<circ> nameToIP a) (dom (nameToIP a)) (dom (ipToName a))"
    by (rule bij_betw_byWitness [where f' = "the \<circ> ipToName a"])
      (auto, (metis i j option.sel)+)
  then have "Len a = card (passed (pool a) (next_ip a))"
    by (simp add: Len_def dom bij_betw_same_card)
  also have "\<dots> = card {w. in_pool (pool a) w \<and> before w (next_ip a)}"
    unfolding passed_def by (rule card_image) (simp add: inj_on_def)
  also have "{w. in_pool (pool a) w \<and> before w (next_ip a)} = {w. in_pool (pool a) w \<and> w \<notin> free a}"
    by (auto simp: free_eq [OF assms])
  finally show ?thesis .
qed

lemma Len_full_iff:
  assumes "vip_inv a"
  shows "Len a \<le> card {w. in_pool (pool a) w}"
    and "free a = {} \<longleftrightarrow> Len a = card {w. in_pool (pool a) w}"
proof -
  have sub: "{w. in_pool (pool a) w \<and> w \<notin> free a} \<subseteq> {w. in_pool (pool a) w}" by blast
  show "Len a \<le> card {w. in_pool (pool a) w}"
    unfolding Len_held [OF assms] by (intro card_mono sub finite)
  have "Len a = card {w. in_pool (pool a) w} \<longleftrightarrow>
      {w. in_pool (pool a) w \<and> w \<notin> free a} = {w. in_pool (pool a) w}"
    unfolding Len_held [OF assms] using card_subset_eq [OF finite sub] by auto
  then show "free a = {} \<longleftrightarrow> Len a = card {w. in_pool (pool a) w}"
    by (auto simp: free_def)
qed

lemma Allocate_result:
  assumes "vip_inv a" and "LookupName a name = None"
  shows "if free a = {}
    then Allocate name a = (Inl (ErrorNew ''intercept: VIP pool exhausted''), snd (Allocate name a))
    else (\<exists>w. fst (Allocate name a) = Inr (Addr4 w) \<and> w \<in> free a \<and> (\<forall>v \<in> free a. w \<le> v))"
  using scan_ok_Allocate [OF assms(1), of name] assms(2)
  by (cases "Allocate name a") (auto simp: scan_ok_def LookupName_def split: sum.splits)

section \<open>Properties\<close>

text \<open>
  C21. In every allocator in use the forward and the reverse map are inverse to
  each other, so no two services share an address, and every address handed out
  lies in the pool and is not the first or last of its /24 block.
\<close>

theorem vip_tables_inverse:
  assumes "vip_reachable cidr a"
  shows "(LookupName a n = Some ip \<longleftrightarrow> ipToName a ip = Some n) \<and>
    (LookupName a n = Some ip \<longrightarrow> Contains (pool a) ip \<and> isUsable ip = Inr True)"
proof -
  have inv: "vip_inv a" using assms by (rule vip_reachable_inv)
  have "Contains (pool a) ip \<and> isUsable ip = Inr True" if "ip \<in> dom (ipToName a)"
    using inv that by (auto simp: vip_inv_def passed_def in_pool_def)
  then show ?thesis
    using vip_inv_inverse [OF inv, of n ip] by (auto simp: LookupName_def)
qed

lemma vip_reachable_example: "vip_reachable DefaultVIPCIDR
  (snd (Allocate ''svc-x'' \<lparr>pool = (Addr4 1681915904, 10),
     nameToIP = Map.empty, ipToName = Map.empty, next_ip = Addr4 1681915905\<rparr>))"
  by (intro vip_reachable.intros NewVIPAllocator_default)

theorem vip_tables_inverse_witness:
  "Lookup (snd (Allocate ''svc-x'' \<lparr>pool = (Addr4 1681915904, 10),
     nameToIP = Map.empty, ipToName = Map.empty, next_ip = Addr4 1681915905\<rparr>)) (Addr4 1681915905)
     = ''svc-x'' \<and> Contains (Addr4 1681915904, 10) (Addr4 1681915905)"
  using vip_tables_inverse [OF vip_reachable_example, of "''svc-x''" "Addr4 1681915905"]
  by (simp add: Allocate_def alloc_scan.simps Contains.simps(1) usable4_def Lookup_def LookupName_def)

text \<open>
  C22. For an unseen name \<open>Allocate\<close> hands out the least address of the pool nobody
  holds, records it under the name and nowhere else, and the reverse lookup of
  that address gives the name back.
\<close>

theorem Allocate_least_free:
  assumes "vip_reachable cidr a" and "LookupName a name = None" and "free a \<noteq> {}"
  shows "\<exists>w. fst (Allocate name a) = Inr (Addr4 w) \<and> w \<in> free a \<and> (\<forall>v \<in> free a. w \<le> v)
    \<and> LookupName (snd (Allocate name a)) = (LookupName a)(name \<mapsto> Addr4 w)
    \<and> Lookup (snd (Allocate name a)) (Addr4 w) = name"
proof -
  have inv: "vip_inv a" using assms(1) by (rule vip_reachable_inv)
  obtain w a' where w: "Allocate name a = (Inr (Addr4 w), a')" "w \<in> free a" "\<forall>v \<in> free a. w \<le> v"
    using Allocate_result [OF inv assms(2)] assms(3) by (cases "Allocate name a") auto
  have names: "LookupName a' = (LookupName a)(name \<mapsto> Addr4 w)"
    using vip.alloc_Inr [OF inv w(1)] .
  then have "nameToIP a' name = Some (Addr4 w)"
    by (metis LookupName_def fun_upd_same)
  then have "ipToName a' (Addr4 w) = Some name"
    using vip_inv_inverse [of a' name "Addr4 w"] vip.ok_alloc [OF inv, of name] w(1) by simp
  then show ?thesis using w names by (simp add: Lookup_def)
qed

theorem Allocate_least_free_witness:
  "\<exists>w. fst (Allocate ''svc-x'' \<lparr>pool = (Addr4 1681915904, 10),
     nameToIP = Map.empty, ipToName = Map.empty, next_ip = Addr4 1681915905\<rparr>) = Inr (Addr4 w)"
proof -
  let ?a = "\<lparr>pool = (Addr4 1681915904, 10), nameToIP = Map.empty, ipToName = Map.empty,
    next_ip = Addr4 1681915905\<rparr>"
  have "1681915905 \<in> free ?a" by (simp add: free_def in_default_pool)
  then have "free ?a \<noteq> {}" by blast
  moreover have "LookupName ?a ''svc-x'' = None" by (simp add: LookupName_def)
  ultimately show ?thesis
    using Allocate_least_free [OF vip_new [OF NewVIPAllocator_default]] by blast
qed

text \<open>
  The same name keeps its address: once allocated, every later allocation
  for that name, after any sequence of other allocations, returns the same address.
\<close>

theorem Allocate_stable:
  assumes "vip_reachable cidr a" and "Allocate name a = (Inr ip, a')"
  shows "fst (Allocate name (fold (\<lambda>n s. snd (Allocate n s)) later a')) = Inr ip"
proof -
  have inv: "vip_inv a" using assms(1) by (rule vip_reachable_inv)
  have "vip_inv (fold (\<lambda>n s. snd (Allocate n s)) later s) \<and>
      LookupName s \<subseteq>\<^sub>m LookupName (fold (\<lambda>n s. snd (Allocate n s)) later s)" if "vip_inv s" for s
    using that
  proof (induction later arbitrary: s)
    case (Cons n ns)
    then show ?case
      using vip.ok_alloc [of s n] vip.alloc_extends [of s n] by (auto intro: map_le_trans)
  qed simp
  moreover have "vip_inv a'" using vip.ok_alloc [OF inv, of name] assms(2) by simp
  moreover have "LookupName a' name = Some ip"
    using vip.alloc_Inr [OF inv assms(2)] by simp
  ultimately have "vip_inv (fold (\<lambda>n s. snd (Allocate n s)) later a')"
    and "LookupName (fold (\<lambda>n s. snd (Allocate n s)) later a') name = Some ip"
    by (auto simp: map_le_def dom_def)
  then show ?thesis using vip.alloc_known by fastforce
qed

theorem Allocate_stable_witness:
  "fst (Allocate ''svc-x'' (fold (\<lambda>n s. snd (Allocate n s)) [''svc-y'', ''svc-x'']
     (snd (Allocate ''svc-x'' \<lparr>pool = (Addr4 1681915904, 10), nameToIP = Map.empty,
        ipToName = Map.empty, next_ip = Addr4 1681915905\<rparr>)))) = Inr (Addr4 1681915905)"
  by (rule Allocate_stable [OF vip_new [OF NewVIPAllocator_default], of "''svc-x''"])
    (simp add: Allocate_def alloc_scan.simps Contains.simps(1) usable4_def)

text \<open>
  C23. The default pool serves \<open>4161536\<close> services: allocation for an unseen name
  succeeds exactly while fewer than that many names are registered, and never more are.
\<close>

theorem default_pool_capacity:
  assumes "vip_reachable DefaultVIPCIDR a" and "LookupName a name = None"
  shows "((\<exists>ip. fst (Allocate name a) = Inr ip) \<longleftrightarrow> Len a < 4161536) \<and> Len a \<le> 4161536"
proof -
  have inv: "vip_inv a" using assms(1) by (rule vip_reachable_inv)
  note card = card_default_pool [folded vip_reachable_default_pool [OF assms(1)]]
  have "Len a \<le> 4161536" "free a = {} \<longleftrightarrow> Len a = 4161536"
    using Len_full_iff [OF inv] card by simp_all
  moreover have "(\<exists>ip. fst (Allocate name a) = Inr ip) \<longleftrightarrow> free a \<noteq> {}"
    using Allocate_result [OF inv assms(2)]
    by (cases "Allocate name a") (auto split: if_splits)
  ultimately show ?thesis by auto
qed

theorem default_pool_capacity_witness:
  "Len (snd (Allocate ''svc-x'' \<lparr>pool = (Addr4 1681915904, 10),
     nameToIP = Map.empty, ipToName = Map.empty, next_ip = Addr4 1681915905\<rparr>)) \<le> 4161536"
  using default_pool_capacity [OF vip_reachable_example, of "''svc-y''"]
  by (simp add: Allocate_def alloc_scan.simps Contains.simps(1) usable4_def LookupName_def)

end
