(* ===== verification/DNS.thy ===== *)
theory DNS
  imports VIP
begin

text \<open>
  \<open>pkg/intercept/dns.go\<close>: the embedded DNS server that answers A queries for
  consumed services from the VIP allocator.  The wire format belongs to
  \<open>golang.org/x/net/dns/dnsmessage\<close>, which is not part of the repository: its
  parser and packer are the argument \<open>dns_lib\<close> of the definitions, and every
  theorem holds for all of them.  Names are the strings \<open>dnsmessage\<close> yields.
\<close>

section \<open>Messages\<close>

record dns_header =
  hID :: uint16
  hResponse :: bool
  hOpCode :: uint16
  hAuthoritative :: bool
  hTruncated :: bool
  hRecursionDesired :: bool
  hRecursionAvailable :: bool
  hAuthenticData :: bool
  hCheckingDisabled :: bool
  hRCode :: uint16

record dns_question =
  qName :: string
  qType :: uint16
  qClass :: uint16

record dns_resource =
  rName :: string
  rType :: uint16
  rClass :: uint16
  rTTL :: uint32
  rA :: "byte list"

record dns_message =
  mHeader :: dns_header
  mQuestions :: "dns_question list"
  mAnswers :: "dns_resource list"

definition TypeA :: uint16 where "TypeA = 1"
definition TypeAAAA :: uint16 where "TypeAAAA = 28"
definition ClassINET :: uint16 where "ClassINET = 1"
definition RCodeSuccess :: uint16 where "RCodeSuccess = 0"
definition RCodeNameError :: uint16 where "RCodeNameError = 3"
definition RCodeNotImplemented :: uint16 where "RCodeNotImplemented = 4"

lemmas dns_consts = TypeA_def TypeAAAA_def RCodeSuccess_def RCodeNameError_def RCodeNotImplemented_def

text \<open>The parser and the packer of \<open>dnsmessage\<close>.\<close>

record dns_lib =
  dl_Start :: "byte list \<Rightarrow> go_error + dns_header"
  dl_Question :: "byte list \<Rightarrow> go_error + dns_question"
  dl_Pack :: "dns_message \<Rightarrow> go_error + byte list"

section \<open>The server\<close>

record dns_server =
  listenAddr :: string
  suffix :: string

definition NewDNSServer ::
  "unicode \<Rightarrow> string \<Rightarrow> string \<Rightarrow> vip_allocator option \<Rightarrow> go_error + dns_server" where
  "NewDNSServer u addr sfx alloc = (case alloc of
       None \<Rightarrow> Inl (ErrorNew ''intercept: nil VIPAllocator'')
     | Some _ \<Rightarrow>
         let s1 = ToLower u (TrimSpace u sfx);
             s2 = (if s1 \<noteq> [] \<and> \<not> HasPrefix s1 ''.'' then CHR ''.'' # s1 else s1)
         in Inr \<lparr>listenAddr = addr, suffix = s2\<rparr>)"

definition dns_lookup :: "unicode \<Rightarrow> dns_server \<Rightarrow> vip_allocator \<Rightarrow> string \<Rightarrow> addr option" where
  "dns_lookup u s alloc qname =
     (let name = ToLower u (TrimSuffix qname ''.'') in
      if suffix s \<noteq> [] \<and> \<not> HasSuffix name (suffix s) then None
      else let name = (if suffix s \<noteq> [] then TrimSuffix name (suffix s) else name) in
        if name = [] then None else LookupName alloc name)"

definition answer_header :: "dns_header \<Rightarrow> dns_header" where
  "answer_header hdr = \<lparr>hID = hID hdr, hResponse = True, hOpCode = 0, hAuthoritative = False,
     hTruncated = False, hRecursionDesired = hRecursionDesired hdr, hRecursionAvailable = False,
     hAuthenticData = False, hCheckingDisabled = False, hRCode = RCodeSuccess\<rparr>"

text \<open>
  \<open>respond\<close>: \<open>Inr None\<close> is the dropped message (\<open>ok = false\<close>), \<open>Inl\<close> the panic of
  \<open>As4\<close> on an address that is not IPv4.
\<close>

definition respond ::
  "dns_lib \<Rightarrow> unicode \<Rightarrow> dns_server \<Rightarrow> vip_allocator \<Rightarrow> byte list \<Rightarrow> go_error + byte list option" where
  "respond L u s alloc query = (case dl_Start L query of
       Inl _ \<Rightarrow> Inr None
     | Inr hdr \<Rightarrow> (case dl_Question L query of
         Inl _ \<Rightarrow> Inr None
       | Inr q \<Rightarrow>
           let answer = \<lparr>mHeader = answer_header hdr, mQuestions = [q], mAnswers = []\<rparr>;
               pack = (\<lambda>m. case dl_Pack L m of Inl _ \<Rightarrow> Inr None | Inr out \<Rightarrow> Inr (Some out));
               fail = (\<lambda>rc. answer\<lparr>mHeader := (mHeader answer)\<lparr>hRCode := rc\<rparr>\<rparr>)
           in if qType q = TypeA then
                (case dns_lookup u s alloc (qName q) of
                   Some vip \<Rightarrow> (case As4 vip of
                       None \<Rightarrow> Inl (Panic ''As4 called on IPv6 address'')
                     | Some b \<Rightarrow> pack (answer\<lparr>mAnswers := [\<lparr>rName = qName q, rType = TypeA,
                           rClass = ClassINET, rTTL = 60, rA = b\<rparr>]\<rparr>))
                 | None \<Rightarrow> pack (fail RCodeNameError))
              else if qType q = TypeAAAA then pack (fail RCodeNameError)
              else pack (fail RCodeNotImplemented)))"

text \<open>
  The serving loop, over the results of \<open>ReadFrom\<close> in the order they come.  The
  result is the list of datagrams sent and how the loop ended: \<open>None\<close> while it is
  still serving, \<open>Some None\<close> for a clean return, \<open>Some (Some e)\<close> for an error.
\<close>

type_synonym 'a recv = "go_error + byte list \<times> 'a"

definition net_timeout :: "go_error \<Rightarrow> bool" where
  "net_timeout e = (errors_Is e NetTimeout \<or> errors_Is e DeadlineExceeded)"

fun dns_serve ::
  "dns_lib \<Rightarrow> unicode \<Rightarrow> dns_server \<Rightarrow> vip_allocator \<Rightarrow> 'a recv list \<Rightarrow>
     (byte list \<times> 'a) list \<times> go_error option option" where
  "dns_serve L u s alloc [] = ([], None)"
| "dns_serve L u s alloc (Inl e # rs) =
     (if errors_Is e NetClosed then ([], Some None)
      else if net_timeout e then dns_serve L u s alloc rs
      else ([], Some (Some e)))"
| "dns_serve L u s alloc (Inr (buf, from) # rs) =
     (case respond L u s alloc (take 1500 buf) of
        Inl p \<Rightarrow> ([], Some (Some p))
      | Inr None \<Rightarrow> dns_serve L u s alloc rs
      | Inr (Some resp) \<Rightarrow> (case dns_serve L u s alloc rs of (out, r) \<Rightarrow> ((resp, from) # out, r)))"

text \<open>\<open>Run\<close>, given what \<open>net.ListenPacket\<close> returned.\<close>

definition dns_Run ::
  "dns_lib \<Rightarrow> unicode \<Rightarrow> dns_server \<Rightarrow> vip_allocator \<Rightarrow> go_error option \<Rightarrow> 'a recv list \<Rightarrow>
     (byte list \<times> 'a) list \<times> go_error option option" where
  "dns_Run L u s alloc listen rs = (case listen of
       Some e \<Rightarrow> ([], Some (Some (Wrapf ''intercept: dns listen'' e)))
     | None \<Rightarrow> dns_serve L u s alloc rs)"

section \<open>Which names resolve\<close>

text \<open>\<open>query_for\<close> says that a query name stands for a service name under the server's suffix.\<close>

definition query_for :: "unicode \<Rightarrow> dns_server \<Rightarrow> string \<Rightarrow> string \<Rightarrow> bool" where
  "query_for u s qname svc = (ToLower u (TrimSuffix qname ''.'') = svc @ suffix s)"

lemma HasSuffix_iff: "HasSuffix s p \<longleftrightarrow> (\<exists>t. s = t @ p)"
  by (auto elim: HasSuffixE)

lemma dns_lookup_iff:
  "dns_lookup u s alloc qname = Some ip \<longleftrightarrow>
     (\<exists>svc. svc \<noteq> [] \<and> query_for u s qname svc \<and> LookupName alloc svc = Some ip)"
  by (auto simp: dns_lookup_def query_for_def HasSuffix_iff)

lemma is_ascii_TrimSuffix: "is_ascii s \<Longrightarrow> is_ascii (TrimSuffix s p)"
  by (auto simp: TrimSuffix_def is_ascii_def list_all_iff dest: in_set_takeD)

lemma query_for_no_capital:
  assumes "is_ascii qname" and "query_for u s qname svc"
  shows "\<not> list_ex capital svc"
proof -
  have "\<not> list_ex capital (svc @ suffix s)"
    using assms ToLower_no_capital [OF is_ascii_TrimSuffix [of qname]] unfolding query_for_def by metis
  then show ?thesis by (simp add: list_ex_iff)
qed

lemma query_for_self:
  assumes "is_ascii svc" "is_ascii (suffix s)" "\<not> list_ex capital svc" "\<not> list_ex capital (suffix s)"
  shows "query_for u s (svc @ suffix s @ ''.'') svc"
proof -
  have "TrimSuffix (svc @ suffix s @ ''.'') ''.'' = svc @ suffix s"
    using TrimSuffix_append [of "svc @ suffix s"] by simp
  moreover have "ToLower u (svc @ suffix s) = svc @ suffix s"
    using assms by (intro ToLower_id) (auto simp: list_ex_iff is_ascii_append)
  ultimately show ?thesis by (simp add: query_for_def)
qed

lemma dns_lookup_Addr4:
  assumes "vip_inv alloc" and "dns_lookup u s alloc qname = Some ip"
  shows "\<exists>w. ip = Addr4 w"
proof -
  obtain svc where "nameToIP alloc svc = Some ip"
    using assms(2) by (auto simp: dns_lookup_iff LookupName_def)
  then have "ip \<in> dom (ipToName alloc)"
    using vip_inv_inverse [OF assms(1)] by blast
  then show ?thesis using assms(1) by (auto simp: vip_inv_def passed_def)
qed

lemma respond_no_panic: "vip_inv alloc \<Longrightarrow> \<exists>r. respond L u s alloc query = Inr r"
  by (auto simp: respond_def split: sum.splits option.splits dest!: dns_lookup_Addr4)

lemma dns_serve_replies:
  assumes "vip_inv alloc" and "\<And>e. Inl e \<in> set rs \<Longrightarrow> net_timeout e \<and> \<not> errors_Is e NetClosed"
    and "errors_Is c NetClosed"
  shows "dns_serve L u s alloc (rs @ Inl c # rest) =
    (List.map_filter (\<lambda>r. case r of Inl _ \<Rightarrow> None
       | Inr (buf, from) \<Rightarrow> (case respond L u s alloc (take 1500 buf) of
           Inr (Some out) \<Rightarrow> Some (out, from) | _ \<Rightarrow> None)) rs, Some None)"
  using assms(2)
proof (induction rs)
  case Nil
  then show ?case using assms(3) by (simp add: map_filter_simps)
next
  case (Cons r rs)
  show ?case
  proof (cases r)
    case (Inl e)
    then show ?thesis using Cons by (simp add: map_filter_simps)
  next
    case (Inr p)
    then show ?thesis
      using Cons respond_no_panic [OF assms(1), of L u s "take 1500 (fst p)"]
      by (cases p) (auto simp: map_filter_simps split: option.splits)
  qed
qed

section \<open>Properties\<close>

text \<open>
  The server resolves a query exactly to the addresses of allocated services:
  the lookup of a query name succeeds with an address if and only if the name,
  lower-cased and without its trailing dot, is a registered non-empty service name
  followed by the configured suffix, and that service holds the address.
\<close>

theorem dns_lookup_exact:
  "dns_lookup u s alloc qname = Some ip \<longleftrightarrow>
     (\<exists>svc. svc \<noteq> [] \<and> ToLower u (TrimSuffix qname ''.'') = svc @ suffix s
        \<and> LookupName alloc svc = Some ip)"
  using dns_lookup_iff by (simp add: query_for_def)

text \<open>
  C24. What a reply says: for a parsable query over an allocator in use the server
  does not panic, and the message it packs echoes the query's identifier and its
  question; it carries an answer if and only if its code is success, the answer
  is then the big-endian address of the service the name stands for, and the code
  is \<open>NotImplemented\<close> exactly for questions other than A and AAAA.
\<close>

theorem respond_reply:
  assumes "vip_reachable cidr alloc" and "dl_Start L query = Inr hdr" and "dl_Question L query = Inr q"
  shows "\<exists>m. respond L u s alloc query
        = Inr (case dl_Pack L m of Inl _ \<Rightarrow> None | Inr out \<Rightarrow> Some out)
    \<and> hID (mHeader m) = hID hdr \<and> hResponse (mHeader m) \<and> mQuestions m = [q]
    \<and> (mAnswers m = [] \<longleftrightarrow> hRCode (mHeader m) \<noteq> RCodeSuccess)
    \<and> (\<forall>r \<in> set (mAnswers m). \<exists>svc w. LookupName alloc svc = Some (Addr4 w)
          \<and> query_for u s (qName q) svc \<and> rName r = qName q \<and> rA r = PutUint32 w)
    \<and> (hRCode (mHeader m) = RCodeNotImplemented \<longleftrightarrow> qType q \<notin> {TypeA, TypeAAAA})"
proof -
  have inv: "vip_inv alloc" using assms(1) by (rule vip_reachable_inv)
  let ?h = "answer_header hdr"
  let ?m = "\<lambda>h as. \<lparr>mHeader = h, mQuestions = [q], mAnswers = as\<rparr>"
  show ?thesis
  proof (cases "qType q = TypeA")
    case A: True
    show ?thesis
    proof (cases "dns_lookup u s alloc (qName q)")
      case None
      then show ?thesis using assms A
        by (intro exI [of _ "?m (?h\<lparr>hRCode := RCodeNameError\<rparr>) []"])
          (simp add: respond_def dns_consts answer_header_def split: sum.splits)
    next
      case (Some ip)
      moreover obtain w where w: "ip = Addr4 w" using dns_lookup_Addr4 [OF inv Some] by blast
      moreover obtain svc where svc: "query_for u s (qName q) svc" "LookupName alloc svc = Some ip"
        using Some by (auto simp: dns_lookup_iff)
      ultimately show ?thesis using assms A
        by (intro exI [of _ "?m ?h [\<lparr>rName = qName q, rType = TypeA, rClass = ClassINET,
              rTTL = 60, rA = PutUint32 w\<rparr>]"])
          (auto simp: respond_def dns_consts answer_header_def split: sum.splits)
    qed
  next
    case False
    then show ?thesis using assms
      by (intro exI [of _ "?m (?h\<lparr>hRCode := (if qType q = TypeAAAA then RCodeNameError
            else RCodeNotImplemented)\<rparr>) []"])
        (simp add: respond_def dns_consts answer_header_def split: sum.splits)
  qed
qed

text \<open>A wire library that reads one fixed query, for the concrete instances below.\<close>

definition sample_lib :: dns_lib where
  "sample_lib = \<lparr>dl_Start = (\<lambda>b. if b = [] then Inl (LibError 1)
       else Inr \<lparr>hID = 7, hResponse = False, hOpCode = 0, hAuthoritative = False, hTruncated = False,
          hRecursionDesired = True, hRecursionAvailable = False, hAuthenticData = False,
          hCheckingDisabled = False, hRCode = 0\<rparr>),
     dl_Question = (\<lambda>b. Inr \<lparr>qName = ''Svc-X.OutRelay.'', qType = TypeA, qClass = ClassINET\<rparr>),
     dl_Pack = (\<lambda>m. Inr (concat (map rA (mAnswers m))))\<rparr>"

definition sample_alloc :: vip_allocator where
  "sample_alloc = \<lparr>pool = (Addr4 1681915904, 10), nameToIP = [''svc-x'' \<mapsto> Addr4 1681915905],
     ipToName = [Addr4 1681915905 \<mapsto> ''svc-x''], next_ip = Addr4 1681915906\<rparr>"

definition sample_unicode :: unicode where
  "sample_unicode = \<lparr>u_ToLower = id, u_TrimSpace = id\<rparr>"

lemma sample_alloc_reachable: "vip_reachable DefaultVIPCIDR sample_alloc"
  using vip_reachable_example
  by (simp add: sample_alloc_def Allocate_def alloc_scan.simps Contains.simps(1) usable4_def Next.simps)

theorem respond_reply_witness:
  "\<exists>m. respond sample_lib sample_unicode \<lparr>listenAddr = '':53'', suffix = ''.outrelay''\<rparr> sample_alloc [1]
     = Inr (case dl_Pack sample_lib m of Inl _ \<Rightarrow> None | Inr out \<Rightarrow> Some out) \<and> hID (mHeader m) = 7"
proof -
  have "dl_Start sample_lib [1] = Inr \<lparr>hID = 7, hResponse = False, hOpCode = 0, hAuthoritative = False,
      hTruncated = False, hRecursionDesired = True, hRecursionAvailable = False,
      hAuthenticData = False, hCheckingDisabled = False, hRCode = 0\<rparr>"
    and "dl_Question sample_lib [1] = Inr \<lparr>qName = ''Svc-X.OutRelay.'', qType = TypeA, qClass = ClassINET\<rparr>"
    by (simp_all add: sample_lib_def)
  from respond_reply [OF sample_alloc_reachable this,
      where u = sample_unicode and s = "\<lparr>listenAddr = '':53'', suffix = ''.outrelay''\<rparr>"]
  show ?thesis by auto
qed

text \<open>
  The serving loop answers: read timeouts and malformed datagrams do not stop
  it, every datagram that \<open>respond\<close> answers gets exactly that reply, at its sender
  and in the order of arrival, and closing the socket ends the loop without an error.
\<close>

theorem dns_serve_answers:
  assumes "vip_reachable cidr alloc"
    and "\<And>e. Inl e \<in> set rs \<Longrightarrow> net_timeout e \<and> \<not> errors_Is e NetClosed"
    and "errors_Is c NetClosed"
  shows "dns_Run L u s alloc None (rs @ Inl c # rest) =
    (List.map_filter (\<lambda>r. case r of Inl _ \<Rightarrow> None
       | Inr (buf, from) \<Rightarrow> (case respond L u s alloc (take 1500 buf) of
           Inr (Some out) \<Rightarrow> Some (out, from) | _ \<Rightarrow> None)) rs, Some None)"
  using dns_serve_replies [OF vip_reachable_inv [OF assms(1)] assms(2,3)] by (simp add: dns_Run_def)

theorem dns_serve_answers_witness:
  "dns_Run sample_lib sample_unicode \<lparr>listenAddr = '':53'', suffix = ''.outrelay''\<rparr> sample_alloc None
     [Inl NetTimeout, Inr ([1], 5 :: nat), Inr ([], 6), Inl NetClosed]
   = ([([100, 64, 0, 1], 5)], Some None)"
proof -
  have "dns_Run sample_lib sample_unicode \<lparr>listenAddr = '':53'', suffix = ''.outrelay''\<rparr> sample_alloc None
     ([Inl NetTimeout, Inr ([1], 5 :: nat), Inr ([], 6)] @ Inl NetClosed # []) =
    (List.map_filter (\<lambda>r. case r of Inl _ \<Rightarrow> None
       | Inr (buf, from) \<Rightarrow> (case respond sample_lib sample_unicode
            \<lparr>listenAddr = '':53'', suffix = ''.outrelay''\<rparr> sample_alloc (take 1500 buf) of
           Inr (Some out) \<Rightarrow> Some (out, from) | _ \<Rightarrow> None))
      [Inl NetTimeout, Inr ([1], 5 :: nat), Inr ([], 6)], Some None)"
    by (rule dns_serve_answers [OF sample_alloc_reachable]) (auto simp: net_timeout_def)
  also have "\<dots> = ([([100, 64, 0, 1], 5)], Some None)"
    by code_simp
  finally show ?thesis by simp
qed

text \<open>
  C25. A service whose registered name has a capital letter cannot be reached by
  name: the server lower-cases the query and the allocator keeps names as they
  were configured, so no ASCII query name resolves to that service's address.
\<close>

theorem dns_capital_unreachable:
  assumes "vip_reachable cidr alloc" and "LookupName alloc svc = Some ip" and "list_ex capital svc"
    and "is_ascii qname"
  shows "dns_lookup u s alloc qname \<noteq> Some ip"
proof
  assume "dns_lookup u s alloc qname = Some ip"
  then obtain svc' where svc': "query_for u s qname svc'" "LookupName alloc svc' = Some ip"
    by (auto simp: dns_lookup_iff)
  have inv: "vip_inv alloc" using assms(1) by (rule vip_reachable_inv)
  have "svc' = svc"
    using svc'(2) assms(2) vip_inv_inverse [OF inv] by (metis LookupName_def option.inject)
  then show False using query_for_no_capital [OF assms(4) svc'(1)] assms(3) by simp
qed

lemma sample_capital_reachable:
  "vip_reachable DefaultVIPCIDR \<lparr>pool = (Addr4 1681915904, 10), nameToIP = [''Svc'' \<mapsto> Addr4 1681915905],
     ipToName = [Addr4 1681915905 \<mapsto> ''Svc''], next_ip = Addr4 1681915906\<rparr>"
  using vip_allocate [OF vip_new [OF NewVIPAllocator_default], of "''Svc''"]
  by (simp add: Allocate_def alloc_scan.simps Contains.simps(1) usable4_def Next.simps)

theorem dns_capital_unreachable_witness:
  "dns_lookup sample_unicode \<lparr>listenAddr = '':53'', suffix = []\<rparr>
     \<lparr>pool = (Addr4 1681915904, 10), nameToIP = [''Svc'' \<mapsto> Addr4 1681915905],
      ipToName = [Addr4 1681915905 \<mapsto> ''Svc''], next_ip = Addr4 1681915906\<rparr> ''Svc.''
   \<noteq> Some (Addr4 1681915905)"
  by (rule dns_capital_unreachable [OF sample_capital_reachable, of "''Svc''"])
    (simp_all add: LookupName_def capital_def is_ascii_def)

end
