(* ===== verification/Intercept.thy ===== *)
theory Intercept
  imports DNS Transport "HOL-Library.Multiset"
begin

text \<open>
  \<open>pkg/intercept\<close>: the explicit interceptor (\<open>explicit.go\<close>), which binds one listener
  per service, and the transparent proxy (\<open>tproxy_linux.go\<close>, with the stub of
  \<open>tproxy_other.go\<close>), which recovers the service from the original destination.

  Both run accept loops concurrently with the consumer's \<open>Accept\<close> and with \<open>Close\<close>.
  A loop is a program counter that advances by one blocking operation at a time; the
  argument of a step is what the operation returned.  A step that the code cannot take
  is \<open>None\<close>.  The locale \<open>accept_loops\<close> is what both interceptors promise about the
  connections they accept; its lemmas hold for every order of the steps.
\<close>

section \<open>Connections, listeners, loops\<close>

definition ErrClosed :: go_error where
  "ErrClosed = InterceptClosed"

record intercepted_conn =
  ic_Local :: nat
  ic_OrigDest :: addr_port
  ic_TargetSvc :: string

record explicit_mapping =
  em_BindAddr :: string
  em_TargetSvc :: string

record listener =
  ln_id :: nat
  ln_Addr :: addr_port

text \<open>
  \<open>getsockopt(SO_ORIGINAL_DST)\<close> on a connection: the error of \<open>SyscallConn\<close>, of \<open>Control\<close>,
  of the call itself, and the 16 bytes it wrote.
\<close>

record sockopt_call =
  so_SyscallConn :: "go_error option"
  so_Control :: "go_error option"
  so_Errno :: "go_error option"
  so_raw :: "byte list"

record arrival =
  ar_conn :: nat
  ar_isTCP :: bool
  ar_sockopt :: sockopt_call

datatype loop_pc = LAccepting | LFailed go_error | LReporting go_error | LOffering intercepted_conn | LDone

text \<open>What a loop is resumed with: a result of \<open>ln.Accept\<close>, or its turn in a \<open>select\<close>.\<close>

datatype wake = WConn arrival | WErr go_error | WGo

text \<open>The branch of the consumer's \<open>select\<close> that is taken.\<close>

datatype choice = RecvConn nat | RecvErr | RecvClosed | RecvDone go_error

datatype ic_step = SLoop nat wake | SRecv choice | SClose

datatype ic_event = IcAccept nat | IcClose nat | IcDeliver intercepted_conn | IcListenerClose nat

record interceptor =
  in_closed :: bool
  in_closing :: "nat list"
  in_log :: "ic_event list"

definition logged :: "ic_event \<Rightarrow> 'm interceptor_scheme \<Rightarrow> 'm interceptor_scheme" where
  "logged ev s = s\<lparr>in_log := in_log s @ [ev]\<rparr>"

definition listening :: "listener \<Rightarrow> 'm interceptor_scheme \<Rightarrow> bool" where
  "listening ln s = (IcListenerClose (ln_id ln) \<notin> set (in_log s))"

text \<open>
  \<open>Close\<close>: under \<open>closeOnce\<close>, first the channel, then the listeners one after the other.
  \<open>in_closing\<close> holds those the running call has still to close.
\<close>

definition close_step :: "nat list \<Rightarrow> 'm interceptor_scheme \<Rightarrow> 'm interceptor_scheme option" where
  "close_step lns s = (if \<not> in_closed s then Some (s\<lparr>in_closed := True, in_closing := lns\<rparr>)
     else case in_closing s of
       [] \<Rightarrow> None
     | l # ls \<Rightarrow> Some (logged (IcListenerClose l) (s\<lparr>in_closing := ls\<rparr>)))"

section \<open>The explicit interceptor\<close>

record explicit = interceptor +
  ex_listeners :: "listener list"
  ex_loops :: "(listener \<times> string \<times> loop_pc) list"
  ex_errs :: "go_error option"

definition set_pc :: "nat \<Rightarrow> loop_pc \<Rightarrow> explicit \<Rightarrow> explicit" where
  "set_pc k pc e = e\<lparr>ex_loops := (ex_loops e)[k := (case ex_loops e ! k of (ln, svc, _) \<Rightarrow> (ln, svc, pc))]\<rparr>"

definition explicit_acceptLoop :: "nat \<Rightarrow> wake \<Rightarrow> explicit \<Rightarrow> explicit option" where
  "explicit_acceptLoop k x e = (if k \<ge> length (ex_loops e) then None
     else case ex_loops e ! k of (ln, svc, pc) \<Rightarrow> (case (pc, x) of
         (LAccepting, WConn a) \<Rightarrow>
           if listening ln e then Some (logged (IcAccept (ar_conn a)) (set_pc k (LOffering
               \<lparr>ic_Local = ar_conn a, ic_OrigDest = ln_Addr ln, ic_TargetSvc = svc\<rparr>) e))
           else None
       | (LAccepting, WErr er) \<Rightarrow> Some (set_pc k (LFailed er) e)
       | (LFailed er, WGo) \<Rightarrow> Some (set_pc k (if in_closed e then LDone else LReporting er) e)
       | (LReporting er, WGo) \<Rightarrow>
           Some ((set_pc k LDone e)\<lparr>ex_errs := (case ex_errs e of None \<Rightarrow> Some er | Some e0 \<Rightarrow> Some e0)\<rparr>)
       | (LOffering ic, WGo) \<Rightarrow>
           if in_closed e then Some (logged (IcClose (ic_Local ic)) (set_pc k LDone e)) else None
       | _ \<Rightarrow> None))"

definition explicit_Accept :: "choice \<Rightarrow> explicit \<Rightarrow> ((go_error + intercepted_conn) \<times> explicit) option" where
  "explicit_Accept c e = (case c of
       RecvConn k \<Rightarrow> (if k \<ge> length (ex_loops e) then None
         else case snd (snd (ex_loops e ! k)) of
           LOffering ic \<Rightarrow> Some (Inr ic, logged (IcDeliver ic) (set_pc k LAccepting e))
         | _ \<Rightarrow> None)
     | RecvErr \<Rightarrow> (case ex_errs e of None \<Rightarrow> None | Some er \<Rightarrow> Some (Inl er, e\<lparr>ex_errs := None\<rparr>))
     | RecvClosed \<Rightarrow> (if in_closed e then Some (Inl ErrClosed, e) else None)
     | RecvDone er \<Rightarrow> Some (Inl er, e))"

definition explicit_Close :: "explicit \<Rightarrow> explicit option" where
  "explicit_Close e = close_step (map ln_id (ex_listeners e)) e"

definition explicit_step :: "ic_step \<Rightarrow> explicit \<Rightarrow> explicit option" where
  "explicit_step a e = (case a of
       SLoop k x \<Rightarrow> explicit_acceptLoop k x e
     | SRecv c \<Rightarrow> map_option snd (explicit_Accept c e)
     | SClose \<Rightarrow> explicit_Close e)"

text \<open>
  \<open>NewExplicit\<close>.  The loops of the listeners that are already bound run while the next
  one is being bound: \<open>net k\<close> gives the steps they take before the \<open>k\<close>-th \<open>net.Listen\<close>
  and what that call returns.
\<close>

fun run_loops :: "(nat \<times> wake) list \<Rightarrow> explicit \<Rightarrow> explicit" where
  "run_loops [] e = e"
| "run_loops ((k, x) # s) e = run_loops s (case explicit_acceptLoop k x e of None \<Rightarrow> e | Some e' \<Rightarrow> e')"

definition closeListeners :: "explicit \<Rightarrow> explicit" where
  "closeListeners e = e\<lparr>in_log := in_log e @ map (IcListenerClose \<circ> ln_id) (ex_listeners e)\<rparr>"

fun bind_all ::
  "(nat \<Rightarrow> (nat \<times> wake) list \<times> (go_error + listener)) \<Rightarrow> nat \<Rightarrow> explicit_mapping list \<Rightarrow> explicit \<Rightarrow>
     go_error option \<times> explicit" where
  "bind_all net k [] e = (None, e)"
| "bind_all net k (m # ms) e = (let e1 = run_loops (fst (net k)) e in
     case snd (net k) of
       Inl er \<Rightarrow> (Some (Wrapf (''intercept: listen '' @ em_BindAddr m) er), closeListeners e1)
     | Inr ln \<Rightarrow> bind_all net (k + 1) ms
         (e1\<lparr>ex_listeners := ex_listeners e1 @ [ln], ex_loops := ex_loops e1 @ [(ln, em_TargetSvc m, LAccepting)]\<rparr>))"

definition empty_explicit :: explicit where
  "empty_explicit = \<lparr>in_closed = False, in_closing = [], in_log = [], ex_listeners = [], ex_loops = [], ex_errs = None\<rparr>"

definition NewExplicit ::
  "(nat \<Rightarrow> (nat \<times> wake) list \<times> (go_error + listener)) \<Rightarrow> explicit_mapping list \<Rightarrow> go_error option \<times> explicit" where
  "NewExplicit net ms =
     (if ms = [] then (Some (ErrorNew ''intercept: no explicit mappings''), empty_explicit)
      else bind_all net 0 ms empty_explicit)"

section \<open>The transparent proxy\<close>

record tproxy = interceptor +
  tp_ln :: listener
  tp_alloc :: vip_allocator
  tp_pc :: loop_pc

text \<open>\<open>sin_port\<close> is in bytes 2 and 3, \<open>sin_addr\<close> in bytes 4 to 7.\<close>

definition origDst4 :: "sockopt_call \<Rightarrow> go_error + addr_port" where
  "origDst4 c = (case so_SyscallConn c of
       Some e \<Rightarrow> Inl e
     | None \<Rightarrow> (case so_Control c of
           Some e \<Rightarrow> Inl e
         | None \<Rightarrow> (case so_Errno c of
               Some e \<Rightarrow> Inl e
             | None \<Rightarrow> Inr (AddrFrom4 (take 4 (drop 4 (so_raw c))), Uint16 (take 2 (drop 2 (so_raw c)))))))"

definition tproxy_acceptLoop :: "wake \<Rightarrow> tproxy \<Rightarrow> tproxy option" where
  "tproxy_acceptLoop x t = (case (tp_pc t, x) of
       (LAccepting, WErr e) \<Rightarrow> Some (t\<lparr>tp_pc := LDone\<rparr>)
     | (LAccepting, WConn a) \<Rightarrow>
         if \<not> listening (tp_ln t) t then None
         else let t1 = logged (IcAccept (ar_conn a)) t; drop_it = logged (IcClose (ar_conn a)) t1 in
           if \<not> ar_isTCP a then Some drop_it
           else (case origDst4 (ar_sockopt a) of
               Inl e \<Rightarrow> Some drop_it
             | Inr dst \<Rightarrow> let svc = Lookup (tp_alloc t) (fst dst) in
                 if svc = [] then Some drop_it
                 else Some (t1\<lparr>tp_pc := LOffering \<lparr>ic_Local = ar_conn a, ic_OrigDest = dst, ic_TargetSvc = svc\<rparr>\<rparr>))
     | (LOffering ic, WGo) \<Rightarrow>
         if in_closed t then Some (logged (IcClose (ic_Local ic)) (t\<lparr>tp_pc := LDone\<rparr>)) else None
     | _ \<Rightarrow> None)"

definition tproxy_Accept :: "choice \<Rightarrow> tproxy \<Rightarrow> ((go_error + intercepted_conn) \<times> tproxy) option" where
  "tproxy_Accept c t = (case c of
       RecvConn k \<Rightarrow> (case tp_pc t of
           LOffering ic \<Rightarrow> Some (Inr ic, logged (IcDeliver ic) (t\<lparr>tp_pc := LAccepting\<rparr>))
         | _ \<Rightarrow> None)
     | RecvErr \<Rightarrow> None
     | RecvClosed \<Rightarrow> (if in_closed t then Some (Inl ErrClosed, t) else None)
     | RecvDone e \<Rightarrow> Some (Inl e, t))"

definition tproxy_Close :: "tproxy \<Rightarrow> tproxy option" where
  "tproxy_Close t = close_step [ln_id (tp_ln t)] t"

definition tproxy_step :: "ic_step \<Rightarrow> tproxy \<Rightarrow> tproxy option" where
  "tproxy_step a t = (case a of
       SLoop k x \<Rightarrow> tproxy_acceptLoop x t
     | SRecv c \<Rightarrow> map_option snd (tproxy_Accept c t)
     | SClose \<Rightarrow> tproxy_Close t)"

text \<open>\<open>NewTProxy\<close>, on linux and elsewhere; \<open>r\<close> is what \<open>net.Listen\<close> returns.\<close>

definition NewTProxy :: "go_error + listener \<Rightarrow> vip_allocator option \<Rightarrow> go_error + tproxy" where
  "NewTProxy r alloc = (case alloc of
       None \<Rightarrow> Inl (ErrorNew ''intercept: nil VIPAllocator'')
     | Some a \<Rightarrow> (case r of
           Inl e \<Rightarrow> Inl (Wrapf ''intercept: tproxy listen'' e)
         | Inr ln \<Rightarrow> Inr \<lparr>in_closed = False, in_closing = [], in_log = [], tp_ln = ln, tp_alloc = a, tp_pc = LAccepting\<rparr>))"

definition NewTProxy_other :: "go_error + listener \<Rightarrow> vip_allocator option \<Rightarrow> go_error + tproxy" where
  "NewTProxy_other r alloc = Inl (ErrorNew ''intercept: tproxy mode requires linux'')"

section \<open>What becomes of a connection\<close>

definition accepted :: "ic_event list \<Rightarrow> nat multiset" where
  "accepted l = (\<Sum>ev\<leftarrow>l. case ev of IcAccept c \<Rightarrow> {#c#} | _ \<Rightarrow> {#})"

definition dropped :: "ic_event list \<Rightarrow> nat multiset" where
  "dropped l = (\<Sum>ev\<leftarrow>l. case ev of IcClose c \<Rightarrow> {#c#} | _ \<Rightarrow> {#})"

definition delivered :: "ic_event list \<Rightarrow> intercepted_conn multiset" where
  "delivered l = (\<Sum>ev\<leftarrow>l. case ev of IcDeliver ic \<Rightarrow> {#ic#} | _ \<Rightarrow> {#})"

lemma account_simps [simp]:
  "accepted [] = {#}" "dropped [] = {#}" "delivered [] = {#}"
  "accepted (l @ l') = accepted l + accepted l'" "dropped (l @ l') = dropped l + dropped l'"
  "delivered (l @ l') = delivered l + delivered l'"
  "accepted (ev # l) = (case ev of IcAccept c \<Rightarrow> {#c#} | _ \<Rightarrow> {#}) + accepted l"
  "dropped (ev # l) = (case ev of IcClose c \<Rightarrow> {#c#} | _ \<Rightarrow> {#}) + dropped l"
  "delivered (ev # l) = (case ev of IcDeliver ic \<Rightarrow> {#ic#} | _ \<Rightarrow> {#}) + delivered l"
  by (simp_all add: accepted_def dropped_def delivered_def)

text \<open>
  Every accepted connection is held by a loop, handed to the consumer, or closed by
  the interceptor, and only one of these.
\<close>

definition accounted :: "intercepted_conn multiset \<Rightarrow> ic_event list \<Rightarrow> bool" where
  "accounted offered l \<longleftrightarrow> accepted l = image_mset ic_Local offered + image_mset ic_Local (delivered l) + dropped l"

inductive reach :: "(ic_step \<Rightarrow> 's \<Rightarrow> 's option) \<Rightarrow> 's \<Rightarrow> 's \<Rightarrow> bool" for step :: "ic_step \<Rightarrow> 's \<Rightarrow> 's option" and s0 :: 's where
  start: "reach step s0 s0"
| next_step: "reach step s0 s \<Longrightarrow> step a s = Some s' \<Longrightarrow> reach step s0 s'"

fun ic_run :: "(ic_step \<Rightarrow> 's \<Rightarrow> 's option) \<Rightarrow> ic_step list \<Rightarrow> 's \<Rightarrow> 's option" where
  "ic_run step [] s = Some s"
| "ic_run step (a # as) s = (case step a s of None \<Rightarrow> None | Some s' \<Rightarrow> ic_run step as s')"

lemma ic_run_snoc: "ic_run step (as @ [a]) s = Option.bind (ic_run step as s) (step a)"
  by (induction as arbitrary: s) (simp_all split: option.split)

lemma reach_run: "reach step s s' \<longleftrightarrow> (\<exists>as. ic_run step as s = Some s')"
proof
  show "reach step s s' \<Longrightarrow> \<exists>as. ic_run step as s = Some s'"
  proof (induction rule: reach.induct)
    case start
    show ?case by (rule exI [of _ "[]"]) simp
  next
    case (next_step s1 a s2)
    then obtain as where "ic_run step as s = Some s1" by blast
    then have "ic_run step (as @ [a]) s = Some s2" using next_step by (simp add: ic_run_snoc)
    then show ?case by blast
  qed
next
  assume "\<exists>as. ic_run step as s = Some s'"
  then obtain as where "ic_run step as s = Some s'" by blast
  then show "reach step s s'"
    by (induction as arbitrary: s' rule: rev_induct)
      (auto simp: ic_run_snoc bind_eq_Some_conv intro: reach.intros)
qed

lemma reach_runI: "ic_run step as s = Some s' \<Longrightarrow> reach step s s'"
  unfolding reach_run by (rule exI)

definition shut :: "'m interceptor_scheme \<Rightarrow> bool" where
  "shut s \<longleftrightarrow> in_closed s \<and> in_closing s = []"

definition is_loop :: "ic_step \<Rightarrow> bool" where
  "is_loop a = (case a of SLoop _ _ \<Rightarrow> True | _ \<Rightarrow> False)"

text \<open>
  The contract: an invariant that every step keeps and that accounts for every
  connection; and once \<open>Close\<close> is through, loops can only come to their end, and those
  that cannot go on hold nothing.
\<close>

locale accept_loops =
  fixes step :: "ic_step \<Rightarrow> 'm interceptor_scheme \<Rightarrow> 'm interceptor_scheme option"
    and offers :: "'m interceptor_scheme \<Rightarrow> intercepted_conn multiset"
    and inv :: "'m interceptor_scheme \<Rightarrow> bool"
    and left :: "'m interceptor_scheme \<Rightarrow> nat"
  assumes keeps: "inv s \<Longrightarrow> step a s = Some s' \<Longrightarrow> inv s'"
    and accounts: "inv s \<Longrightarrow> accounted (offers s) (in_log s)"
    and shrinks: "inv s \<Longrightarrow> shut s \<Longrightarrow> is_loop a \<Longrightarrow> step a s = Some s' \<Longrightarrow> shut s' \<and> left s' < left s"
    and stuck: "inv s \<Longrightarrow> shut s \<Longrightarrow> (\<And>a. is_loop a \<Longrightarrow> step a s = None) \<Longrightarrow> offers s = {#}"
begin

lemma always: "reach step s0 s \<Longrightarrow> inv s0 \<Longrightarrow> inv s"
  by (induction rule: reach.induct) (auto dest: keeps)

lemma no_leak: "reach step s0 s \<Longrightarrow> inv s0 \<Longrightarrow> accounted (offers s) (in_log s)"
  by (blast intro: accounts always)

text \<open>After \<open>Close\<close> the loops end by themselves, and then everything not delivered is closed.\<close>

lemma runs_down:
  assumes "inv s" and "shut s"
  shows "list_all is_loop as \<Longrightarrow> ic_run step as s = Some s' \<Longrightarrow> inv s' \<and> shut s' \<and> length as + left s' \<le> left s"
proof (induction as arbitrary: s' rule: rev_induct)
  case (snoc a as)
  then obtain s1 where s1: "ic_run step as s = Some s1" "step a s1 = Some s'"
    by (auto simp: ic_run_snoc bind_eq_Some_conv)
  then show ?case using snoc keeps shrinks by fastforce
qed (use assms in auto)

lemma drains:
  assumes "inv s" and "shut s" and "list_all is_loop as" and "ic_run step as s = Some s'"
  shows "length as \<le> left s" and "shut s'"
    and "(\<And>a. is_loop a \<Longrightarrow> step a s' = None) \<Longrightarrow>
      accepted (in_log s') = image_mset ic_Local (delivered (in_log s')) + dropped (in_log s')"
  using runs_down [OF assms] accounts stuck
  by (auto, metis accounted_def add.left_neutral image_mset_empty)

end

section \<open>The explicit interceptor accounts for its connections\<close>

definition offered :: "loop_pc \<Rightarrow> intercepted_conn multiset" where
  "offered pc = (case pc of LOffering ic \<Rightarrow> {#ic#} | _ \<Rightarrow> {#})"

definition ex_offers :: "explicit \<Rightarrow> intercepted_conn multiset" where
  "ex_offers e = (\<Sum>l\<leftarrow>ex_loops e. offered (snd (snd l)))"

definition pc_left :: "loop_pc \<Rightarrow> nat" where
  "pc_left pc = (case pc of LAccepting \<Rightarrow> 3 | LFailed _ \<Rightarrow> 2 | LReporting _ \<Rightarrow> 1 | LOffering _ \<Rightarrow> 1 | LDone \<Rightarrow> 0)"

definition ex_left :: "explicit \<Rightarrow> nat" where
  "ex_left e = (\<Sum>l\<leftarrow>ex_loops e. pc_left (snd (snd l)))"

definition bindings :: "explicit \<Rightarrow> (listener \<times> string) list" where
  "bindings e = map (\<lambda>(ln, svc, _). (ln, svc)) (ex_loops e)"

definition close_pending :: "listener list \<Rightarrow> 'm interceptor_scheme \<Rightarrow> bool" where
  "close_pending lns s \<longleftrightarrow> (if in_closed s then \<forall>ln\<in>set lns. \<not> listening ln s \<or> ln_id ln \<in> set (in_closing s)
     else in_closing s = [])"

definition right_service :: "(listener \<times> string) list \<Rightarrow> intercepted_conn \<Rightarrow> bool" where
  "right_service ns ic \<longleftrightarrow> (\<exists>(ln, svc) \<in> set ns. ic_OrigDest ic = ln_Addr ln \<and> ic_TargetSvc ic = svc)"

definition ex_inv :: "(listener \<times> string) list \<Rightarrow> explicit \<Rightarrow> bool" where
  "ex_inv ns e \<longleftrightarrow> bindings e = ns \<and> ex_listeners e = map fst ns \<and> close_pending (ex_listeners e) e
     \<and> accounted (ex_offers e) (in_log e)
     \<and> (\<forall>ic \<in># ex_offers e + delivered (in_log e). right_service ns ic)"

lemma sum_list_map_update:
  fixes f :: "'a \<Rightarrow> 'b :: comm_monoid_add"
  shows "k < length xs \<Longrightarrow> (\<Sum>x\<leftarrow>xs[k := y]. f x) + f (xs ! k) = (\<Sum>x\<leftarrow>xs. f x) + f y"
  by (induction xs arbitrary: k) (auto simp: nth_Cons ac_simps split: nat.split)

lemma logged_simps [simp]:
  "in_closed (logged ev s) = in_closed s" "in_closing (logged ev s) = in_closing s" "in_log (logged ev s) = in_log s @ [ev]"
  "ex_loops (logged ev e) = ex_loops e" "ex_listeners (logged ev e) = ex_listeners e" "ex_errs (logged ev e) = ex_errs e"
  "tp_pc (logged ev t) = tp_pc t" "tp_ln (logged ev t) = tp_ln t" "tp_alloc (logged ev t) = tp_alloc t"
  by (simp_all add: logged_def)

lemma set_pc_simps [simp]:
  "in_closed (set_pc k pc e) = in_closed e" "in_closing (set_pc k pc e) = in_closing e" "in_log (set_pc k pc e) = in_log e"
  "ex_listeners (set_pc k pc e) = ex_listeners e" "ex_errs (set_pc k pc e) = ex_errs e"
  by (simp_all add: set_pc_def)

lemma ex_views [simp]:
  "bindings (logged ev e) = bindings e" "ex_offers (logged ev e) = ex_offers e" "ex_left (logged ev e) = ex_left e"
  "bindings (e\<lparr>ex_errs := x\<rparr>) = bindings e" "ex_offers (e\<lparr>ex_errs := x\<rparr>) = ex_offers e" "ex_left (e\<lparr>ex_errs := x\<rparr>) = ex_left e"
  by (simp_all add: bindings_def ex_offers_def ex_left_def)

lemma bindings_set_pc [simp]: "bindings (set_pc k pc e) = bindings e"
  by (cases "ex_loops e ! k"; cases "k < length (ex_loops e)")
    (auto simp: bindings_def set_pc_def nth_list_update intro!: nth_equalityI)

lemma set_pc_balance:
  assumes "k < length (ex_loops e)" and "ex_loops e ! k = (ln, svc, old)"
  shows "ex_offers (set_pc k pc e) + offered old = ex_offers e + offered pc"
    and "ex_left (set_pc k pc e) + pc_left old = ex_left e + pc_left pc"
  using assms sum_list_map_update [OF assms(1), of "\<lambda>l. offered (snd (snd l))" "(ln, svc, pc)"]
    sum_list_map_update [OF assms(1), of "\<lambda>l. pc_left (snd (snd l))" "(ln, svc, pc)"]
  by (simp_all add: ex_offers_def ex_left_def set_pc_def)

lemma offers_nth: "k < length (ex_loops e) \<Longrightarrow> ex_loops e ! k = (ln, svc, LOffering ic) \<Longrightarrow> ic \<in># ex_offers e"
  using set_pc_balance(1) [of k e ln svc "LOffering ic" LDone] by (auto simp: offered_def) (metis add_mset_eq_single union_iff union_single_eq_member)

lemma binding_nth: "k < length (ex_loops e) \<Longrightarrow> ex_loops e ! k = (ln, svc, pc) \<Longrightarrow> (ln, svc) \<in> set (bindings e)"
  unfolding bindings_def by (metis (mono_tags, lifting) case_prod_conv image_eqI nth_mem set_map)

text \<open>The effect of each step on the accounts.\<close>

lemma explicit_loop_cases:
  assumes "explicit_acceptLoop k x e = Some e'"
  obtains (accept) ln svc and a :: arrival where "k < length (ex_loops e)" "ex_loops e ! k = (ln, svc, LAccepting)" "listening ln e"
      "e' = logged (IcAccept (ar_conn a)) (set_pc k (LOffering \<lparr>ic_Local = ar_conn a, ic_OrigDest = ln_Addr ln, ic_TargetSvc = svc\<rparr>) e)"
    | (quiet) ln svc old pc er where "k < length (ex_loops e)" "ex_loops e ! k = (ln, svc, old)" "offered old = {#}" "offered pc = {#}"
      "pc_left pc < pc_left old" "e' = (set_pc k pc e)\<lparr>ex_errs := er\<rparr>"
    | (drop) ln svc ic where "k < length (ex_loops e)" "ex_loops e ! k = (ln, svc, LOffering ic)" "in_closed e"
      "e' = logged (IcClose (ic_Local ic)) (set_pc k LDone e)"
proof -
  obtain ln svc pc where k: "k < length (ex_loops e)" "ex_loops e ! k = (ln, svc, pc)"
    using assms by (auto simp: explicit_acceptLoop_def split: if_splits prod.splits)
  have quietI: thesis if "e' = (set_pc k pc' e)\<lparr>ex_errs := er\<rparr>" "offered pc = {#}" "offered pc' = {#}" "pc_left pc' < pc_left pc" for pc' er
    using quiet k that by blast
  have quietI': thesis if "e' = set_pc k pc' e" "offered pc = {#}" "offered pc' = {#}" "pc_left pc' < pc_left pc" for pc'
    by (rule quietI [where pc' = pc' and er = "ex_errs e"]) (use that in \<open>simp_all add: set_pc_def\<close>)
  show thesis
  proof (cases pc)
    case LAccepting
    show thesis
    proof (cases x)
      case (WConn a)
      then have "listening ln e" and "e' = logged (IcAccept (ar_conn a)) (set_pc k (LOffering
          \<lparr>ic_Local = ar_conn a, ic_OrigDest = ln_Addr ln, ic_TargetSvc = svc\<rparr>) e)"
        using assms k LAccepting by (simp_all add: explicit_acceptLoop_def split: if_splits)
      then show thesis by (rule accept [OF k(1) k(2) [unfolded LAccepting]])
    next
      case (WErr er)
      then have "e' = set_pc k (LFailed er) e" using assms k LAccepting by (simp add: explicit_acceptLoop_def)
      then show thesis by (rule quietI') (simp_all add: LAccepting offered_def pc_left_def)
    qed (use assms k LAccepting in \<open>simp add: explicit_acceptLoop_def\<close>)
  next
    case (LFailed er)
    then have "e' = set_pc k (if in_closed e then LDone else LReporting er) e"
      using assms k by (cases x) (simp_all add: explicit_acceptLoop_def)
    then show thesis
      by (rule quietI') (simp_all add: LFailed offered_def pc_left_def)
  next
    case (LReporting er)
    then have "e' = (set_pc k LDone e)\<lparr>ex_errs := (case ex_errs e of None \<Rightarrow> Some er | Some e0 \<Rightarrow> Some e0)\<rparr>"
      using assms k by (cases x) (simp_all add: explicit_acceptLoop_def)
    then show thesis by (rule quietI) (simp_all add: LReporting offered_def pc_left_def)
  next
    case (LOffering ic)
    then show thesis using drop assms k by (cases x) (auto simp: explicit_acceptLoop_def split: if_splits)
  qed (use assms k in \<open>simp add: explicit_acceptLoop_def\<close>)
qed

lemma close_pending_logged: "close_pending lns s \<Longrightarrow> close_pending lns (logged ev s)"
  by (auto simp: close_pending_def listening_def)

lemma close_pending_same:
  "in_closed s' = in_closed s \<Longrightarrow> in_closing s' = in_closing s \<Longrightarrow> in_log s' = in_log s \<Longrightarrow> close_pending lns s' = close_pending lns s"
  by (simp add: close_pending_def listening_def)

lemma close_pending_set_pc [simp]: "close_pending lns (set_pc k pc e) = close_pending lns e"
  by (rule close_pending_same) simp_all

lemma close_step_keeps:
  assumes "close_step (map ln_id lns) s = Some s'" and "close_pending lns s"
  shows "close_pending lns s'" and "accepted (in_log s') = accepted (in_log s)" and "dropped (in_log s') = dropped (in_log s)"
    and "delivered (in_log s') = delivered (in_log s)"
  using assms by (auto simp: close_step_def close_pending_def listening_def split: if_splits list.splits)

lemma close_step_fields:
  "close_step l e = Some e' \<Longrightarrow> ex_loops e' = ex_loops e \<and> ex_listeners e' = ex_listeners e \<and> ex_errs e' = ex_errs e"
  "close_step l t = Some t' \<Longrightarrow> tp_pc t' = tp_pc t \<and> tp_ln t' = tp_ln t \<and> tp_alloc t' = tp_alloc t"
  by (auto simp: close_step_def split: if_splits list.splits)

lemma ex_inv_same:
  assumes "ex_inv ns e" and "bindings e' = bindings e" "ex_listeners e' = ex_listeners e" "ex_offers e' = ex_offers e"
    and "in_closed e' = in_closed e" "in_closing e' = in_closing e" "in_log e' = in_log e"
  shows "ex_inv ns e'"
  using assms close_pending_same [of e' e] by (auto simp: ex_inv_def)

lemma explicit_loop_keeps:
  assumes inv: "ex_inv ns e" and "explicit_acceptLoop k x e = Some e'"
  shows "ex_inv ns e'"
  using assms(2)
proof (cases rule: explicit_loop_cases)
  case (accept ln svc a)
  let ?ic = "\<lparr>ic_Local = ar_conn a, ic_OrigDest = ln_Addr ln, ic_TargetSvc = svc\<rparr>"
  have "ex_offers e' = ex_offers e + {#?ic#}"
    using set_pc_balance(1) [OF accept(1,2), of "LOffering ?ic"] accept(4) by (simp add: offered_def)
  moreover have "right_service ns ?ic"
    using binding_nth [OF accept(1,2)] inv by (auto simp: right_service_def ex_inv_def)
  moreover have "close_pending (ex_listeners e') e'"
    using inv accept(4) by (auto simp: ex_inv_def close_pending_logged)
  ultimately show ?thesis using inv accept(4) by (auto simp: ex_inv_def accounted_def)
next
  case (quiet ln svc old pc er)
  then have "ex_offers e' = ex_offers e" using set_pc_balance(1) [OF quiet(1,2), of pc] by simp
  then show ?thesis using quiet(6) by (intro ex_inv_same [OF inv]) simp_all
next
  case (drop ln svc ic)
  have "ex_offers e = ex_offers e' + {#ic#}"
    using set_pc_balance(1) [OF drop(1,2), of LDone] drop(4) by (simp add: offered_def)
  moreover have "close_pending (ex_listeners e') e'"
    using inv drop(4) by (auto simp: ex_inv_def close_pending_logged)
  ultimately show ?thesis using inv drop(4) by (auto simp: ex_inv_def accounted_def)
qed

lemma explicit_Accept_keeps:
  assumes inv: "ex_inv ns e" and "explicit_Accept c e = Some (r, e')"
  shows "ex_inv ns e'"
proof (cases c)
  case (RecvConn k)
  then obtain ln svc ic where k: "k < length (ex_loops e)" "ex_loops e ! k = (ln, svc, LOffering ic)"
    "e' = logged (IcDeliver ic) (set_pc k LAccepting e)"
    using assms(2) by (cases "ex_loops e ! k") (auto simp: explicit_Accept_def split: if_splits loop_pc.splits)
  have "ex_offers e = ex_offers e' + {#ic#}"
    using set_pc_balance(1) [OF k(1,2), of LAccepting] k(3) by (simp add: offered_def)
  moreover have "close_pending (ex_listeners e') e'"
    using inv k(3) by (auto simp: ex_inv_def close_pending_logged)
  ultimately show ?thesis using inv k(3) by (auto simp: ex_inv_def accounted_def)
next
  case RecvErr
  then show ?thesis
    using assms by (auto simp: explicit_Accept_def split: option.splits intro: ex_inv_same)
qed (use assms in \<open>auto simp: explicit_Accept_def split: if_splits\<close>)

lemma explicit_Close_keeps:
  assumes "ex_inv ns e" and "explicit_Close e = Some e'"
  shows "ex_inv ns e'"
  using assms close_step_keeps [of "ex_listeners e" e e'] close_step_fields(1) [of _ e e']
  by (auto simp: ex_inv_def explicit_Close_def accounted_def bindings_def ex_offers_def)

lemma explicit_shrinks:
  assumes "ex_inv ns e" and "shut e" and "explicit_acceptLoop k x e = Some e'"
  shows "shut e' \<and> ex_left e' < ex_left e"
  using assms(3)
proof (cases rule: explicit_loop_cases)
  case (accept ln svc a)
  then have "ln \<in> set (ex_listeners e)"
    using binding_nth [OF accept(1,2)] assms(1) by (force simp: ex_inv_def)
  then show ?thesis using assms(1,2) accept(3) by (auto simp: ex_inv_def shut_def close_pending_def)
next
  case (quiet ln svc old pc er)
  then show ?thesis using set_pc_balance(2) [OF quiet(1,2), of pc] assms(2) by (simp add: shut_def)
next
  case (drop ln svc ic)
  then show ?thesis using set_pc_balance(2) [OF drop(1,2), of LDone] assms(2) by (simp add: shut_def pc_left_def)
qed

lemma explicit_stuck:
  assumes "shut e" and none: "\<And>k x. explicit_acceptLoop k x e = None"
  shows "\<forall>l \<in> set (ex_loops e). snd (snd l) = LDone" and "ex_offers e = {#}"
proof -
  have "snd (snd (ex_loops e ! k)) = LDone" if "k < length (ex_loops e)" for k
    using that none [of k "WErr EOF"] none [of k WGo] assms(1)
    by (cases "snd (snd (ex_loops e ! k))") (auto simp: explicit_acceptLoop_def shut_def split: prod.splits)
  then show all: "\<forall>l \<in> set (ex_loops e). snd (snd l) = LDone" by (metis in_set_conv_nth)
  have "map (\<lambda>l. offered (snd (snd l))) (ex_loops e) = map (\<lambda>_. {#}) (ex_loops e)" using all by (simp add: offered_def)
  then show "ex_offers e = {#}" unfolding ex_offers_def by (simp only: sum_list_0)
qed

interpretation ex: accept_loops explicit_step ex_offers "ex_inv ns" ex_left for ns
proof
  show "ex_inv ns e \<Longrightarrow> explicit_step a e = Some e' \<Longrightarrow> ex_inv ns e'" for a e e'
    by (auto simp: explicit_step_def split: ic_step.splits
        intro: explicit_loop_keeps explicit_Accept_keeps explicit_Close_keeps)
  show "ex_inv ns e \<Longrightarrow> accounted (ex_offers e) (in_log e)" for e by (simp add: ex_inv_def)
  show "ex_inv ns e \<Longrightarrow> shut e \<Longrightarrow> is_loop a \<Longrightarrow> explicit_step a e = Some e' \<Longrightarrow> shut e' \<and> ex_left e' < ex_left e" for a e e'
    using explicit_shrinks by (cases a) (auto simp: is_loop_def explicit_step_def)
  show "ex_offers e = {#}" if "shut e" "\<And>a. is_loop a \<Longrightarrow> explicit_step a e = None" for e
    using that(2) [of "SLoop _ _"] by (intro explicit_stuck(2) [OF that(1)]) (simp add: is_loop_def explicit_step_def)
qed

lemma loop_keeps_open:
  assumes "explicit_acceptLoop k x e = Some e'"
  shows "in_closed e' = in_closed e" and "ex_listeners e' = ex_listeners e"
    and "\<not> in_closed e \<Longrightarrow> ex_offers e \<subseteq># ex_offers e' \<and> dropped (in_log e') = dropped (in_log e)"
proof -
  show "in_closed e' = in_closed e" "ex_listeners e' = ex_listeners e"
    using assms by (cases rule: explicit_loop_cases; simp)+
  show "ex_offers e \<subseteq># ex_offers e' \<and> dropped (in_log e') = dropped (in_log e)" if "\<not> in_closed e"
    using assms
  proof (cases rule: explicit_loop_cases)
    case (accept ln svc a)
    then show ?thesis
      using set_pc_balance(1) [OF accept(1,2), of "LOffering \<lparr>ic_Local = ar_conn a, ic_OrigDest = ln_Addr ln, ic_TargetSvc = svc\<rparr>"]
      by (simp add: offered_def)
  next
    case (quiet ln svc old pc er)
    then show ?thesis using set_pc_balance(1) [OF quiet(1,2), of pc] by simp
  qed (use that in simp)
qed

lemma run_loops_rule:
  assumes "P e" and "\<And>k x e e'. P e \<Longrightarrow> explicit_acceptLoop k x e = Some e' \<Longrightarrow> P e'"
  shows "P (run_loops sched e)"
  using assms(1)
proof (induction sched arbitrary: e)
  case (Cons kx sched)
  then show ?case using assms(2) by (cases kx) (auto split: option.split)
qed simp

lemma run_loops_keeps:
  "in_closed (run_loops sched e) = in_closed e \<and> ex_listeners (run_loops sched e) = ex_listeners e"
  "ex_inv ns e \<Longrightarrow> ex_inv ns (run_loops sched e)"
  by (rule run_loops_rule; use loop_keeps_open(1,2) explicit_loop_keeps in auto)+

lemma run_loops_holds:
  "\<not> in_closed e \<Longrightarrow> \<not> in_closed (run_loops sched e) \<and> ex_offers e \<subseteq># ex_offers (run_loops sched e)
    \<and> dropped (in_log (run_loops sched e)) = dropped (in_log e)"
  by (rule run_loops_rule [where P = "\<lambda>e'. \<not> in_closed e' \<and> ex_offers e \<subseteq># ex_offers e' \<and> dropped (in_log e') = dropped (in_log e)"])
    (use loop_keeps_open(1,3) in \<open>auto intro: subset_mset.order_trans\<close>)

lemma bind_all_inv:
  assumes "bind_all net k ms e = (None, e')" and "ex_inv ns e" and "\<not> in_closed e"
  shows "\<exists>lns. length lns = length ms \<and> (\<forall>j<length ms. snd (net (k + j)) = Inr (lns ! j))
    \<and> ex_inv (ns @ zip lns (map em_TargetSvc ms)) e' \<and> \<not> in_closed e'"
  using assms
proof (induction net k ms e arbitrary: ns e' rule: bind_all.induct)
  case (2 net k m ms e)
  let ?e1 = "run_loops (fst (net k)) e"
  from 2(2) obtain ln where ln: "snd (net k) = Inr ln" by (auto simp: Let_def split: sum.splits)
  let ?e2 = "?e1\<lparr>ex_listeners := ex_listeners ?e1 @ [ln], ex_loops := ex_loops ?e1 @ [(ln, em_TargetSvc m, LAccepting)]\<rparr>"
  have inv1: "ex_inv ns ?e1" "\<not> in_closed ?e1" using 2(3,4) run_loops_keeps by auto
  then have "ex_inv (ns @ [(ln, em_TargetSvc m)]) ?e2"
    by (auto simp: ex_inv_def bindings_def ex_offers_def offered_def close_pending_def right_service_def)
  moreover have "bind_all net (k + 1) ms ?e2 = (None, e')" using 2(2) ln by (simp add: Let_def)
  moreover have "\<not> in_closed ?e2" using inv1(2) by simp
  ultimately obtain lns where lns: "length lns = length ms" "\<forall>j<length ms. snd (net (k + 1 + j)) = Inr (lns ! j)"
    "ex_inv ((ns @ [(ln, em_TargetSvc m)]) @ zip lns (map em_TargetSvc ms)) e'" "\<not> in_closed e'"
    using 2(1) [OF refl ln] by metis
  have "snd (net (k + j)) = Inr ((ln # lns) ! j)" if "j < length (m # ms)" for j
    using that lns(2) ln by (cases j) auto
  then show ?case using lns by (intro exI [of _ "ln # lns"]) auto
qed simp

lemma empty_explicit_inv: "ex_inv [] empty_explicit" "\<not> in_closed empty_explicit"
  by (simp_all add: ex_inv_def empty_explicit_def bindings_def ex_offers_def close_pending_def accounted_def)

lemma NewExplicit_inv:
  assumes "NewExplicit net ms = (None, e)"
  obtains lns where "length lns = length ms" "\<And>j. j < length ms \<Longrightarrow> snd (net j) = Inr (lns ! j)"
    "ex_inv (zip lns (map em_TargetSvc ms)) e" "\<not> in_closed e"
  using bind_all_inv [OF _ empty_explicit_inv, of net 0 ms e] assms that
  by (auto simp: NewExplicit_def split: if_splits)

lemma ex_left_bound: "ex_left e \<le> 3 * length (bindings e)"
proof -
  have "(\<Sum>l\<leftarrow>ls. pc_left (snd (snd l))) \<le> 3 * length ls" for ls :: "(listener \<times> string \<times> loop_pc) list"
    by (induction ls) (auto simp: pc_left_def split: loop_pc.split)
  then show ?thesis by (simp add: ex_left_def bindings_def)
qed


text \<open>
  C13. After \<open>Close\<close> has returned, the accept loops of the explicit interceptor end by
  themselves: they take at most three more steps each, and when none can go on all
  have returned and every connection that was accepted and not handed out is closed.
\<close>

theorem explicit_close_drains:
  assumes "NewExplicit net ms = (None, e0)" and "reach explicit_step e0 e" and "shut e"
    and "list_all is_loop as" and "ic_run explicit_step as e = Some e'"
  shows "length as \<le> 3 * length ms
    \<and> ((\<forall>k x. explicit_step (SLoop k x) e' = None) \<longrightarrow> (\<forall>l \<in> set (ex_loops e'). snd (snd l) = LDone)
      \<and> accepted (in_log e') = image_mset ic_Local (delivered (in_log e')) + dropped (in_log e'))"
proof -
  from assms(1) obtain lns where lns: "length lns = length ms"
    and inv0: "ex_inv (zip lns (map em_TargetSvc ms)) e0" by (rule NewExplicit_inv) blast
  note inv = ex.always [OF assms(2) inv0]
  note drains = ex.drains [OF inv assms(3-5)]
  have "length as \<le> 3 * length ms" using drains(1) ex_left_bound [of e] inv lns by (simp add: ex_inv_def)
  moreover have "(\<forall>l \<in> set (ex_loops e'). snd (snd l) = LDone)
      \<and> accepted (in_log e') = image_mset ic_Local (delivered (in_log e')) + dropped (in_log e')"
    if stuck: "\<forall>k x. explicit_step (SLoop k x) e' = None"
  proof
    show "\<forall>l \<in> set (ex_loops e'). snd (snd l) = LDone"
      using explicit_stuck(1) [OF drains(2)] stuck by (simp add: explicit_step_def)
    show "accepted (in_log e') = image_mset ic_Local (delivered (in_log e')) + dropped (in_log e')"
      using drains(3) stuck by (simp add: is_loop_def split: ic_step.splits)
  qed
  ultimately show ?thesis by blast
qed

text \<open>
  C15. When \<open>NewExplicit\<close> fails because an address cannot be bound, a connection that one
  of the earlier listeners has accepted meanwhile stays open for good: the constructor
  closes the listeners but not the channel the loops wait on, so whatever the loops
  still do, the connection is neither closed nor handed to anybody.
\<close>

theorem NewExplicit_failure_leaks:
  assumes "NewExplicit net ms = (Some er, e)" and "ic \<in># ex_offers e"
  shows "ic \<in># ex_offers (run_loops sched e) \<and> dropped (in_log (run_loops sched e)) = {#}"
proof -
  have "\<not> in_closed e' \<and> dropped (in_log e') = {#}"
    if "bind_all net k ms e = (x, e')" "\<not> in_closed e" "dropped (in_log e) = {#}" for k ms e x e'
    using that
  proof (induction net k ms e rule: bind_all.induct)
    case (2 net k m ms e)
    have "dropped (map (IcListenerClose \<circ> ln_id) lns) = {#}" for lns :: "listener list" by (induction lns) simp_all
    then show ?case
      using 2 run_loops_holds [OF 2(3), of "fst (net k)"] by (auto simp: Let_def closeListeners_def split: sum.splits)
  qed simp
  then have "\<not> in_closed e \<and> dropped (in_log e) = {#}"
    using assms(1) empty_explicit_inv(2)
    by (auto simp: NewExplicit_def empty_explicit_def split: if_splits)
  then show ?thesis using run_loops_holds [of e sched] assms(2) by (metis mset_subset_eqD)
qed

section \<open>The transparent proxy accounts for its connections\<close>

definition tp_offers :: "tproxy \<Rightarrow> intercepted_conn multiset" where
  "tp_offers t = offered (tp_pc t)"

definition tp_left :: "tproxy \<Rightarrow> nat" where
  "tp_left t = pc_left (tp_pc t)"

definition vip_service :: "vip_allocator \<Rightarrow> intercepted_conn \<Rightarrow> bool" where
  "vip_service al ic \<longleftrightarrow> ic_TargetSvc ic = Lookup al (fst (ic_OrigDest ic)) \<and> ic_TargetSvc ic \<noteq> []"

definition tp_inv :: "listener \<Rightarrow> vip_allocator \<Rightarrow> tproxy \<Rightarrow> bool" where
  "tp_inv ln al t \<longleftrightarrow> tp_ln t = ln \<and> tp_alloc t = al \<and> close_pending [ln] t \<and> accounted (tp_offers t) (in_log t)
     \<and> (\<forall>ic. ic \<in># tp_offers t + delivered (in_log t) \<longrightarrow> vip_service al ic)"

lemma tproxy_loop_cases:
  assumes "tproxy_acceptLoop x t = Some t'"
  obtains (accept) a :: arrival and dst where "tp_pc t = LAccepting" "listening (tp_ln t) t" "origDst4 (ar_sockopt a) = Inr dst"
      "Lookup (tp_alloc t) (fst dst) \<noteq> []" "t' = (logged (IcAccept (ar_conn a)) t)
        \<lparr>tp_pc := LOffering \<lparr>ic_Local = ar_conn a, ic_OrigDest = dst, ic_TargetSvc = Lookup (tp_alloc t) (fst dst)\<rparr>\<rparr>"
    | (refuse) a :: arrival where "tp_pc t = LAccepting" "listening (tp_ln t) t"
      "t' = logged (IcClose (ar_conn a)) (logged (IcAccept (ar_conn a)) t)"
    | (ended) "tp_pc t = LAccepting" "t' = t\<lparr>tp_pc := LDone\<rparr>"
    | (drop) ic where "tp_pc t = LOffering ic" "in_closed t" "t' = logged (IcClose (ic_Local ic)) (t\<lparr>tp_pc := LDone\<rparr>)"
proof (cases "tp_pc t")
  case LAccepting
  show thesis
  proof (cases x)
    case (WConn a)
    then have "t' = logged (IcClose (ar_conn a)) (logged (IcAccept (ar_conn a)) t) \<or> (\<exists>dst. origDst4 (ar_sockopt a) = Inr dst
        \<and> Lookup (tp_alloc t) (fst dst) \<noteq> [] \<and> t' = (logged (IcAccept (ar_conn a)) t)\<lparr>tp_pc := LOffering
          \<lparr>ic_Local = ar_conn a, ic_OrigDest = dst, ic_TargetSvc = Lookup (tp_alloc t) (fst dst)\<rparr>\<rparr>)"
      and "listening (tp_ln t) t"
      using assms LAccepting by (auto simp: tproxy_acceptLoop_def Let_def split: if_splits sum.splits)
    then show thesis using accept [OF LAccepting] refuse [OF LAccepting] by blast
  next
    case (WErr e)
    then show thesis using assms LAccepting ended by (simp add: tproxy_acceptLoop_def)
  qed (use assms LAccepting in \<open>simp add: tproxy_acceptLoop_def\<close>)
next
  case (LOffering ic)
  then show thesis using drop assms by (cases x) (auto simp: tproxy_acceptLoop_def split: if_splits)
qed (use assms in \<open>simp_all add: tproxy_acceptLoop_def\<close>)

lemma tp_pending_pc [simp]: "close_pending lns (t\<lparr>tp_pc := pc\<rparr>) = close_pending lns t"
  by (rule close_pending_same) simp_all

lemma tproxy_loop_keeps: "tp_inv ln al t \<Longrightarrow> tproxy_acceptLoop x t = Some t' \<Longrightarrow> tp_inv ln al t'"
  by (erule tproxy_loop_cases)
    (auto simp: tp_inv_def tp_offers_def offered_def accounted_def vip_service_def close_pending_logged)

lemma tproxy_Accept_keeps:
  assumes "tp_inv ln al t" and "tproxy_Accept c t = Some (r, t')"
  shows "tp_inv ln al t'"
proof (cases c)
  case (RecvConn k)
  then obtain ic where "tp_pc t = LOffering ic" "t' = logged (IcDeliver ic) (t\<lparr>tp_pc := LAccepting\<rparr>)"
    using assms(2) by (auto simp: tproxy_Accept_def split: loop_pc.splits)
  then show ?thesis
    using assms(1) by (auto simp: tp_inv_def tp_offers_def offered_def accounted_def close_pending_logged)
qed (use assms in \<open>auto simp: tproxy_Accept_def split: if_splits\<close>)

lemma tproxy_Close_keeps: "tp_inv ln al t \<Longrightarrow> tproxy_Close t = Some t' \<Longrightarrow> tp_inv ln al t'"
  using close_step_keeps [of "[tp_ln t]" t t'] close_step_fields(2) [of _ t t']
  by (auto simp: tp_inv_def tproxy_Close_def accounted_def tp_offers_def)

lemma tproxy_shrinks: "tp_inv ln al t \<Longrightarrow> shut t \<Longrightarrow> tproxy_acceptLoop x t = Some t' \<Longrightarrow> shut t' \<and> tp_left t' < tp_left t"
  by (erule tproxy_loop_cases) (auto simp: tp_inv_def shut_def tp_left_def pc_left_def close_pending_def)

lemma tproxy_stuck:
  assumes "shut t" and "\<And>x. tproxy_acceptLoop x t = None"
  shows "tp_offers t = {#}"
  using assms(1) assms(2) [of WGo] by (cases "tp_pc t") (auto simp: tproxy_acceptLoop_def shut_def tp_offers_def offered_def)

interpretation tp: accept_loops tproxy_step tp_offers "tp_inv ln al" tp_left for ln al
proof
  show "tp_inv ln al t \<Longrightarrow> tproxy_step a t = Some t' \<Longrightarrow> tp_inv ln al t'" for a t t'
    by (auto simp: tproxy_step_def split: ic_step.splits intro: tproxy_loop_keeps tproxy_Accept_keeps tproxy_Close_keeps)
  show "tp_inv ln al t \<Longrightarrow> accounted (tp_offers t) (in_log t)" for t by (simp add: tp_inv_def)
  show "tp_inv ln al t \<Longrightarrow> shut t \<Longrightarrow> is_loop a \<Longrightarrow> tproxy_step a t = Some t' \<Longrightarrow> shut t' \<and> tp_left t' < tp_left t" for a t t'
    using tproxy_shrinks by (cases a) (auto simp: is_loop_def tproxy_step_def)
  show "tp_offers t = {#}" if "shut t" "\<And>a. is_loop a \<Longrightarrow> tproxy_step a t = None" for t
    using that(2) [of "SLoop 0 _"] by (intro tproxy_stuck [OF that(1)]) (simp add: is_loop_def tproxy_step_def)
qed

lemma NewTProxy_inv: "NewTProxy r (Some al) = Inr t \<Longrightarrow> tp_inv (tp_ln t) al t"
  by (auto simp: NewTProxy_def tp_inv_def close_pending_def accounted_def tp_offers_def offered_def split: sum.splits)


text \<open>
  A single failing \<open>ln.Accept\<close> silences the transparent proxy for good: the loop
  returns, and from then on the consumer gets no connection and no report of the
  failure, only the end of its own context or of the interceptor.
\<close>

theorem tproxy_dies_silently:
  assumes "tproxy_step (SLoop 0 (WErr er)) t = Some t1" and "reach tproxy_step t1 t2" and "tproxy_Accept c t2 = Some (res, t3)"
  shows "tp_pc t2 = LDone \<and> delivered (in_log t2) = delivered (in_log t)
    \<and> (res = Inl ErrClosed \<and> in_closed t2 \<or> (\<exists>e. c = RecvDone e \<and> res = Inl e))"
proof -
  have "tp_pc t1 = LDone \<and> delivered (in_log t1) = delivered (in_log t)"
    using assms(1) by (auto simp: tproxy_step_def tproxy_acceptLoop_def split: loop_pc.splits)
  with assms(2) have "tp_pc t2 = LDone \<and> delivered (in_log t2) = delivered (in_log t)"
  proof (induction rule: reach.induct)
    case (next_step s a s')
    then show ?case
      by (auto simp: tproxy_step_def tproxy_acceptLoop_def tproxy_Accept_def tproxy_Close_def close_step_def
          split: ic_step.splits choice.splits if_splits list.splits)
  qed
  then show ?thesis
    using assms(3) by (auto simp: tproxy_Accept_def split: choice.splits if_splits)
qed

section \<open>Concrete runs\<close>

definition demo_net :: "nat \<Rightarrow> (nat \<times> wake) list \<times> (go_error + listener)" where
  "demo_net k = ([], Inr \<lparr>ln_id = k, ln_Addr = (Addr4 0x7F000001, 30001)\<rparr>)"

definition demo_mapping :: explicit_mapping where
  "demo_mapping = \<lparr>em_BindAddr = ''127.0.0.1:30001'', em_TargetSvc = ''svc-a''\<rparr>"

definition demo_arrival :: "nat \<Rightarrow> byte list \<Rightarrow> arrival" where
  "demo_arrival c ip = \<lparr>ar_conn = c, ar_isTCP = True, ar_sockopt =
     \<lparr>so_SyscallConn = None, so_Control = None, so_Errno = None, so_raw = [2, 0, 0x1F, 0x90] @ ip @ replicate 8 0\<rparr>\<rparr>"

lemmas explicit_run_defs = explicit_step_def explicit_acceptLoop_def explicit_Accept_def explicit_Close_def close_step_def
  listening_def logged_def set_pc_def demo_net_def demo_mapping_def demo_arrival_def NewExplicit_def empty_explicit_def

text \<open>One connection delivered, one accepted after that and still offered when \<open>Close\<close> comes.\<close>

definition demo_steps :: "ic_step list" where
  "demo_steps = [SLoop 0 (WConn (demo_arrival 7 [])), SRecv (RecvConn 0), SLoop 0 (WConn (demo_arrival 8 [])), SClose, SClose]"

definition demo_conn :: "nat \<Rightarrow> intercepted_conn" where
  "demo_conn c = \<lparr>ic_Local = c, ic_OrigDest = (Addr4 0x7F000001, 30001), ic_TargetSvc = ''svc-a''\<rparr>"

definition demo_state :: "bool \<Rightarrow> ic_event list \<Rightarrow> loop_pc \<Rightarrow> explicit" where
  "demo_state c l pc = \<lparr>in_closed = c, in_closing = [], in_log = l, ex_listeners = [\<lparr>ln_id = 0, ln_Addr = (Addr4 0x7F000001, 30001)\<rparr>],
     ex_loops = [(\<lparr>ln_id = 0, ln_Addr = (Addr4 0x7F000001, 30001)\<rparr>, ''svc-a'', pc)], ex_errs = None\<rparr>"

abbreviation demo_log :: "ic_event list" where
  "demo_log \<equiv> [IcAccept 7, IcDeliver (demo_conn 7), IcAccept 8, IcListenerClose 0]"

lemma demo_run:
  "NewExplicit demo_net [demo_mapping] = (None, demo_state False [] LAccepting)"
  "reach explicit_step (demo_state False [] LAccepting) (demo_state True demo_log (LOffering (demo_conn 8)))"
  "ic_run explicit_step [SLoop 0 WGo] (demo_state True demo_log (LOffering (demo_conn 8)))
    = Some (demo_state True (demo_log @ [IcClose 8]) LDone)"
proof -
  show "NewExplicit demo_net [demo_mapping] = (None, demo_state False [] LAccepting)"
    by (simp add: explicit_run_defs demo_state_def)
  have "ic_run explicit_step demo_steps (demo_state False [] LAccepting)
      = Some (demo_state True demo_log (LOffering (demo_conn 8)))"
    by (simp add: explicit_run_defs demo_state_def demo_steps_def demo_conn_def)
  then show "reach explicit_step (demo_state False [] LAccepting) (demo_state True demo_log (LOffering (demo_conn 8)))"
    by (rule reach_runI)
  show "ic_run explicit_step [SLoop 0 WGo] (demo_state True demo_log (LOffering (demo_conn 8)))
      = Some (demo_state True (demo_log @ [IcClose 8]) LDone)"
    by (simp add: explicit_run_defs demo_state_def demo_conn_def)
qed


theorem explicit_close_drains_witness:
  "\<exists>e0 e e'. NewExplicit demo_net [demo_mapping] = (None, e0) \<and> reach explicit_step e0 e \<and> shut e
    \<and> ic_run explicit_step [SLoop 0 WGo] e = Some e' \<and> in_log e' = demo_log @ [IcClose 8]
    \<and> accepted (in_log e') = image_mset ic_Local (delivered (in_log e')) + dropped (in_log e')"
proof -
  let ?e = "demo_state True demo_log (LOffering (demo_conn 8))" and ?e' = "demo_state True (demo_log @ [IcClose 8]) LDone"
  have shut: "shut ?e" by (simp add: demo_state_def shut_def)
  have "\<forall>k x. explicit_step (SLoop k x) ?e' = None"
    by (auto simp: explicit_step_def explicit_acceptLoop_def demo_state_def not_less_eq_eq [symmetric])
  then have "accepted (in_log ?e') = image_mset ic_Local (delivered (in_log ?e')) + dropped (in_log ?e')"
    using explicit_close_drains [OF demo_run(1,2) shut _ demo_run(3)] by (simp add: is_loop_def)
  moreover have "in_log ?e' = demo_log @ [IcClose 8]" by (simp add: demo_state_def)
  ultimately show ?thesis using demo_run shut by blast
qed

definition busy_net :: "nat \<Rightarrow> (nat \<times> wake) list \<times> (go_error + listener)" where
  "busy_net k = (if k = 0 then demo_net 0 else ([(0, WConn (demo_arrival 7 []))], Inl NetClosed))"

theorem NewExplicit_failure_leaks_witness:
  "\<exists>er e ic. NewExplicit busy_net [demo_mapping, demo_mapping] = (Some er, e) \<and> ic_Local ic = 7
    \<and> (\<forall>sched. ic \<in># ex_offers (run_loops sched e) \<and> dropped (in_log (run_loops sched e)) = {#})"
proof -
  let ?ic = "\<lparr>ic_Local = 7, ic_OrigDest = (Addr4 0x7F000001, 30001), ic_TargetSvc = ''svc-a''\<rparr>"
  obtain er e where new: "NewExplicit busy_net [demo_mapping, demo_mapping] = (Some er, e)" and "?ic \<in># ex_offers e"
    by (simp add: explicit_run_defs busy_net_def Let_def closeListeners_def ex_offers_def offered_def)
  then show ?thesis using NewExplicit_failure_leaks [OF new] by (metis intercepted_conn.select_convs(1))
qed

lemmas tproxy_run_defs = tproxy_step_def tproxy_acceptLoop_def tproxy_Accept_def tproxy_Close_def close_step_def
  listening_def logged_def demo_arrival_def NewTProxy_def origDst4_def

definition demo_table :: vip_allocator where
  "demo_table = \<lparr>pool = (Addr4 0x64400000, 10), nameToIP = [''svc-a'' \<mapsto> Addr4 0x64400001],
     ipToName = [Addr4 0x64400001 \<mapsto> ''svc-a''], next_ip = Addr4 0x64400002\<rparr>"

definition demo_proxy :: tproxy where
  "demo_proxy = \<lparr>in_closed = False, in_closing = [], in_log = [], tp_ln = \<lparr>ln_id = 0, ln_Addr = (Addr4 0x7F000001, 15001)\<rparr>,
     tp_alloc = demo_table, tp_pc = LAccepting\<rparr>"


theorem tproxy_dies_silently_witness:
  "\<exists>t1. tproxy_step (SLoop 0 (WErr (LibError 24))) demo_proxy = Some t1
    \<and> tproxy_Accept (RecvDone Canceled) t1 = Some (Inl Canceled, t1) \<and> tp_pc t1 = LDone"
proof -
  obtain t1 where t1: "tproxy_step (SLoop 0 (WErr (LibError 24))) demo_proxy = Some t1"
    by (simp add: tproxy_run_defs demo_proxy_def)
  moreover have "tproxy_Accept (RecvDone Canceled) t1 = Some (Inl Canceled, t1)" by (simp add: tproxy_Accept_def)
  ultimately show ?thesis using tproxy_dies_silently [OF t1 reach.start] by blast
qed

end
