(* ===== verification/Agent.thy ===== *)
theory Agent
  imports Incoming Intercept
begin

text \<open>
  The program itself, \<open>cmd/outrelay-agent/main.go\<close>: flags, TLS material, the dial to
  the relay with its TCP fallback, the P2P listener and its candidates, the
  interceptor, the consumer with one goroutine per intercepted connection, the
  promotion task and the order in which \<open>main\<close> starts all of them.

  Flags are the record \<open>flags\<close>.  Files, certificates, sockets and the parser of agent
  identities are the argument \<open>'e oslib\<close>.  \<open>os.Exit\<close> ends the program without running
  deferred calls.  The session's fields have no meaning before \<open>dial_relay\<close> has
  succeeded.  Log lines are left out.
\<close>

section \<open>Flags and logging\<close>

record flags =
  fl_relay :: string
  fl_cert :: string
  fl_key :: string
  fl_ca :: string
  fl_uri :: string
  fl_exposeSvc :: string
  fl_exposeTo :: string
  fl_intercept :: string
  fl_dnsAddr :: string
  fl_dnsSuffix :: string
  fl_serverName :: string
  fl_p2pListen :: string
  fl_p2pAdvertise :: string
  fl_relayTCP :: string
  fl_version :: bool
  fl_consumes :: "string list"

definition consumeFlag_String :: "string list \<Rightarrow> string" where
  "consumeFlag_String c = Join c (CHR '','')"

definition consumeFlag_Set :: "string list \<Rightarrow> string \<Rightarrow> go_error option \<times> string list" where
  "consumeFlag_Set c s = (None, c @ [s])"

text \<open>The levels of \<open>log/slog\<close>, and the handler a logger is built on.\<close>

definition parseLogLevel :: "string \<Rightarrow> int" where
  "parseLogLevel s = (if s = ''debug'' then -4 else if s = ''warn'' then 4 else if s = ''error'' then 8 else 0)"

datatype log_handler = JSONHandler int | TextHandler int

definition newLogger :: "string \<Rightarrow> string \<Rightarrow> log_handler" where
  "newLogger format level =
     (if format = ''json'' then JSONHandler (parseLogLevel level) else TextHandler (parseLogLevel level))"

definition endpoints :: "unicode \<Rightarrow> string \<Rightarrow> string list" where
  "endpoints u s = map (TrimSpace u) (Split (CHR '','') s)"

section \<open>TLS material\<close>

text \<open>
  \<open>ol_AppendCertsFromPEM\<close> gives the pool with the certificates of a PEM block, if it has
  any; \<open>ol_Listen\<close> the listener on a shared socket with its port.
\<close>

record 'e oslib =
  ol_LoadX509KeyPair :: "string \<Rightarrow> string \<Rightarrow> 'e \<Rightarrow> (go_error + nat) \<times> 'e"
  ol_ReadFile :: "string \<Rightarrow> 'e \<Rightarrow> (go_error + byte list) \<times> 'e"
  ol_AppendCertsFromPEM :: "byte list \<Rightarrow> nat option"
  ol_identityParse :: "string \<Rightarrow> go_error option"
  ol_NewSharedTransport :: "string \<Rightarrow> 'e \<Rightarrow> (go_error + nat) \<times> 'e"
  ol_CloseShared :: "nat \<Rightarrow> 'e \<Rightarrow> go_error option \<times> 'e"
  ol_Listen :: "nat \<Rightarrow> tls_config \<Rightarrow> 'e \<Rightarrow> (go_error + nat \<times> uint16) \<times> 'e"
  ol_CloseListener :: "nat \<Rightarrow> 'e \<Rightarrow> go_error option \<times> 'e"

definition load_pair :: "'e oslib \<Rightarrow> string \<Rightarrow> string \<Rightarrow> string \<Rightarrow> ('e, 'm, go_error + nat \<times> nat) io" where
  "load_pair OS cert key ca = do {
     c \<leftarrow> act (ol_LoadX509KeyPair OS cert key) (\<lambda>_. []);
     case c of
       Inl e \<Rightarrow> State_Monad.return (Inl e)
     | Inr crt \<Rightarrow> do {
         p \<leftarrow> act (ol_ReadFile OS ca) (\<lambda>_. []);
         State_Monad.return (case p of
             Inl e \<Rightarrow> Inl e
           | Inr pem \<Rightarrow> (case ol_AppendCertsFromPEM OS pem of
                 None \<Rightarrow> Inl (ErrorNew ''tls: empty ca PEM'')
               | Some pl \<Rightarrow> Inr (crt, pl)))
       }
   }"

definition loadServerTLS :: "'e oslib \<Rightarrow> string \<Rightarrow> string \<Rightarrow> string \<Rightarrow> ('e, 'm, go_error + tls_config) io" where
  "loadServerTLS OS cert key ca = do {
     r \<leftarrow> load_pair OS cert key ca;
     State_Monad.return (case r of
         Inl e \<Rightarrow> Inl e
       | Inr (crt, pl) \<Rightarrow> Inr \<lparr>tc_Certificates = [crt], tc_RootCAs = None, tc_ClientCAs = Some pl, tc_VerifyClient = True,
           tc_ServerName = [], tc_NextProtos = [], tc_MinVersion = VersionTLS13\<rparr>)
   }"

definition loadClientTLS ::
  "'e oslib \<Rightarrow> string \<Rightarrow> string \<Rightarrow> string \<Rightarrow> string \<Rightarrow> ('e, 'm, go_error + tls_config) io" where
  "loadClientTLS OS cert key ca serverName = do {
     r \<leftarrow> load_pair OS cert key ca;
     State_Monad.return (case r of
         Inl e \<Rightarrow> Inl e
       | Inr (crt, pl) \<Rightarrow> Inr \<lparr>tc_Certificates = [crt], tc_RootCAs = Some pl, tc_ClientCAs = None, tc_VerifyClient = False,
           tc_ServerName = serverName, tc_NextProtos = [], tc_MinVersion = VersionTLS13\<rparr>)
   }"

section \<open>Dialing the relay\<close>

definition NewSharedTransport_io :: "'e oslib \<Rightarrow> string \<Rightarrow> ('e, 'm, go_error + nat) io" where
  "NewSharedTransport_io OS a = act (ol_NewSharedTransport OS a) (\<lambda>r. [EvUDPBind (ok_value r)])"

definition CloseShared_io :: "'e oslib \<Rightarrow> nat \<Rightarrow> ('e, 'm, go_error option) io" where
  "CloseShared_io OS t = act (ol_CloseShared OS t) (\<lambda>_. [EvUDPClose t])"

definition Listen_io :: "'e oslib \<Rightarrow> nat \<Rightarrow> tls_config \<Rightarrow> ('e, 'm, go_error + nat \<times> uint16) io" where
  "Listen_io OS t c = act (ol_Listen OS t c) (\<lambda>r. [EvQuicListen t c (map_option fst (ok_value r))])"

definition CloseP2PListener_io :: "'e oslib \<Rightarrow> nat \<Rightarrow> ('e, 'm, go_error option) io" where
  "CloseP2PListener_io OS l = act (ol_CloseListener OS l) (\<lambda>_. [EvListenerClose l])"

lemmas agent_io_defs = NewSharedTransport_io_def CloseShared_io_def Listen_io_def CloseP2PListener_io_def

declare agent_io_defs [run_simps]

text \<open>
  The attempt over QUIC: an exit code, or the session if there is one, and the shared
  socket.  \<open>order\<close> is the order in which the dials to the given endpoints complete.
\<close>

definition dial_quic ::
  "'e netlib \<Rightarrow> orp_lib \<Rightarrow> 'e oslib \<Rightarrow> unicode \<Rightarrow> (string list \<Rightarrow> string list) \<Rightarrow> flags \<Rightarrow>
     ('e, 'm, nat + session option \<times> nat option) io" where
  "dial_quic N L OS u order f = (let addrs = endpoints u (fl_relay f) in
     if fl_p2pListen f \<noteq> [] then do {
       t \<leftarrow> NewSharedTransport_io OS (fl_p2pListen f);
       case t of
         Inl e \<Rightarrow> State_Monad.return (Inl 1)
       | Inr sh \<Rightarrow> do {
           r \<leftarrow> DialAnyHappy N L (SharedTransport sh) addrs (order addrs) (fl_uri f);
           State_Monad.return (case r of
               Inl e \<Rightarrow> if fl_relayTCP f = [] then Inl 1 else Inr (None, Some sh)
             | Inr s \<Rightarrow> Inr (Some s, Some sh))
         }
     } else do {
       r \<leftarrow> DialAnyHappy N L DefaultDialer addrs (order addrs) (fl_uri f);
       State_Monad.return (case r of
           Inl e \<Rightarrow> if fl_relayTCP f = [] then Inl 1 else Inr (None, None)
         | Inr s \<Rightarrow> Inr (Some s, None))
     })"

text \<open>The whole dial: exit code, or session, shared socket and the endpoints to reconnect to.\<close>

definition dial_relay ::
  "'e netlib \<Rightarrow> orp_lib \<Rightarrow> 'e oslib \<Rightarrow> unicode \<Rightarrow> (string list \<Rightarrow> string list) \<Rightarrow> flags \<Rightarrow>
     ('e, 'm, nat + session \<times> nat option \<times> string list) io" where
  "dial_relay N L OS u order f = do {
     q \<leftarrow> dial_quic N L OS u order f;
     case q of
       Inl code \<Rightarrow> State_Monad.return (Inl code)
     | Inr (Some s, sh) \<Rightarrow> State_Monad.return (Inr (s, sh, endpoints u (fl_relay f)))
     | Inr (None, sh) \<Rightarrow> do {
         (case sh of
            None \<Rightarrow> State_Monad.return ()
          | Some t \<Rightarrow> do { _ \<leftarrow> CloseShared_io OS t; State_Monad.return () });
         let tcpAddrs = endpoints u (fl_relayTCP f);
         r \<leftarrow> DialAnyHappy N L TCPDialer tcpAddrs (order tcpAddrs) (fl_uri f);
         State_Monad.return (case r of Inl e \<Rightarrow> Inl 1 | Inr s \<Rightarrow> Inr (s, None, tcpAddrs))
       }
   }"

section \<open>Listening for direct connections\<close>

definition toPBCandidates :: "candidate list \<Rightarrow> pb_candidate list" where
  "toPBCandidates cs = fold (\<lambda>c out. out @ [\<lparr>pb_Kind = Kind c, pb_Ip = String (fst (Addr c)),
     pb_Port = ucast (snd (Addr c)), pb_Priority = Priority c\<rparr>]) cs []"

text \<open>
  The outcome of the reflexive query: the branch its \<open>select\<close> takes, the random number
  and the counter it draws its request identifier from.
\<close>

record srflx_env =
  sx_sel :: srflx_sel
  sx_rnd :: uint32
  sx_ctr :: uint64

definition add_advertise :: "flags \<Rightarrow> candidate list \<Rightarrow> nat + candidate list" where
  "add_advertise f locals =
     (if fl_p2pAdvertise f = [] then Inr locals
      else case ParseAddrPort (fl_p2pAdvertise f) of
          None \<Rightarrow> Inl 2
        | Some adv \<Rightarrow> Inr (\<lparr>Kind = ''host'', Addr = adv, Priority = 100\<rparr> # locals))"

definition p2p_listen ::
  "'e netlib \<Rightarrow> orp_lib \<Rightarrow> 'e oslib \<Rightarrow> (go_error + iface_addr list) \<Rightarrow> srflx_env \<Rightarrow> flags \<Rightarrow> nat option \<Rightarrow>
     ('e, 's, nat + nat option) sio" where
  "p2p_listen N L OS ifaces sx f shared = (case shared of
       None \<Rightarrow> State_Monad.return (Inr None)
     | Some sh \<Rightarrow>
         if fl_p2pListen f = [] then State_Monad.return (Inr None)
         else do {
           tl \<leftarrow> loadServerTLS OS (fl_cert f) (fl_key f) (fl_ca f);
           case tl of
             Inl e \<Rightarrow> State_Monad.return (Inl 1)
           | Inr tls \<Rightarrow> do {
               l \<leftarrow> Listen_io OS sh tls;
               case l of
                 Inl e \<Rightarrow> State_Monad.return (Inl 1)
               | Inr (ln, port) \<Rightarrow> do {
                   let hosts = HostCandidates ifaces port;
                   q \<leftarrow> QueryServerReflexive_session N L 3000000000 (sx_sel sx) (sx_rnd sx) (sx_ctr sx);
                   let locals = (case q of Inl e \<Rightarrow> hosts | Inr srflx \<Rightarrow> srflx # hosts);
                   case add_advertise f locals of
                     Inl code \<Rightarrow> State_Monad.return (Inl code)
                   | Inr cs \<Rightarrow> do {
                       SetLocalCandidates (toPBCandidates cs);
                       State_Monad.return (Inr (Some ln))
                     }
                 }
             }
         })"

definition agent_engine :: "nat option \<Rightarrow> engine" where
  "agent_engine shared = SetPerPairTimeout 2000000000
     (case shared of None \<Rightarrow> NewEngine | Some t \<Rightarrow> SetDialer (Some (SharedTransport t)) NewEngine)"

section \<open>The interceptor\<close>

datatype interceptor_impl = IExplicit explicit | ITProxy tproxy

fun explicit_mappings :: "string list \<Rightarrow> go_error + explicit_mapping list" where
  "explicit_mappings [] = Inr []"
| "explicit_mappings (c # cs) = (case Cut c (CHR ''@'') of (svc, addr, ok) \<Rightarrow>
     if \<not> ok then Inl (ErrorNew (''explicit --consume must be <svc>@<bind-addr>: '' @ c))
     else case explicit_mappings cs of
         Inl e \<Rightarrow> Inl e
       | Inr ms \<Rightarrow> Inr (\<lparr>em_BindAddr = addr, em_TargetSvc = svc\<rparr> # ms))"

text \<open>
  \<open>startInterceptor\<close>: the interceptor and, in tproxy mode, the DNS server that was
  started.  \<open>net\<close> describes the binding of the explicit listeners, \<open>ln\<close> is what the
  proxy's \<open>net.Listen\<close> returns.
\<close>

definition startInterceptor ::
  "unicode \<Rightarrow> (nat \<Rightarrow> (nat \<times> wake) list \<times> (go_error + listener)) \<Rightarrow> (go_error + listener) \<Rightarrow>
     string \<Rightarrow> string \<Rightarrow> string \<Rightarrow> string list \<Rightarrow> (go_error + interceptor_impl) \<times> dns_server option" where
  "startInterceptor u net ln mode dnsAddr dnsSuffix consumes =
     (if mode = ''explicit'' then
        (case explicit_mappings consumes of
           Inl e \<Rightarrow> (Inl e, None)
         | Inr ms \<Rightarrow> (case NewExplicit net ms of
               (Some e, _) \<Rightarrow> (Inl e, None)
             | (None, ex) \<Rightarrow> (Inr (IExplicit ex), None)))
      else if mode = ''tproxy'' then
        (case NewVIPAllocator DefaultVIPCIDR of
           Inl e \<Rightarrow> (Inl e, None)
         | Inr a0 \<Rightarrow> (case alloc_all Allocate consumes a0 of
               (Some e, _) \<Rightarrow> (Inl e, None)
             | (None, alloc) \<Rightarrow> (case NewDNSServer u dnsAddr dnsSuffix (Some alloc) of
                   Inl e \<Rightarrow> (Inl e, None)
                 | Inr dns \<Rightarrow> (case NewTProxy ln (Some alloc) of
                       Inl e \<Rightarrow> (Inl e, Some dns)
                     | Inr t \<Rightarrow> (Inr (ITProxy t), Some dns)))))
      else (Inl (ErrorNew (''unknown intercept mode: '' @ mode)), None))"

section \<open>The consumer\<close>

text \<open>\<open>runConsumer\<close> over the results of \<open>Accept\<close>: false while it still accepts.\<close>

fun runConsumer :: "(go_error + intercepted_conn) list \<Rightarrow> ('e, 'm, bool) io" where
  "runConsumer [] = State_Monad.return False"
| "runConsumer (Inl e # rs) = State_Monad.return True"
| "runConsumer (Inr ic # rs) = do { emit (EvGo (GoServe (ic_Local ic) (ic_TargetSvc ic))); runConsumer rs }"

text \<open>
  What the goroutine of a connection does with its stream; \<open>tls\<close> is \<open>peerClientTLS\<close>.
\<close>

definition serve_stream ::
  "'e netlib \<Rightarrow> 'e fwdlib \<Rightarrow> 'e hostlib \<Rightarrow> ('e, 's, unit) sio \<Rightarrow> tls_config option \<Rightarrow> intercepted_conn \<Rightarrow> nat \<Rightarrow>
     alloc_granted option \<Rightarrow> ('e, 's, unit) sio" where
  "serve_stream N F H during tls ic ref granted = (case granted of
       Some g \<Rightarrow> (case tls of
           None \<Rightarrow> State_Monad.return ()
         | Some c \<Rightarrow> do {
             r \<leftarrow> DialForward F (Some g) c;
             case r of
               Inl e \<Rightarrow> State_Monad.return ()
             | Inr fs \<Rightarrow> do {
                 (case fs_stream fs of
                    None \<Rightarrow> State_Monad.return ()
                  | Some st \<Rightarrow> bridge_ends N F H during (EpLocal (ic_Local ic)) (EpStream st));
                 _ \<leftarrow> ForwardSession_Close F fs;
                 State_Monad.return ()
               }
           })
     | None \<Rightarrow> do {
         emit (EvGo (GoPromote ref (ic_TargetSvc ic)));
         bridge_ends N F H during (EpLocal (ic_Local ic)) (EpWrapped ref)
       })"

text \<open>
  The goroutine: false if \<open>Dial\<close> does not return.  Its deferred closes are the last two
  calls.
\<close>

definition serve_conn ::
  "'e netlib \<Rightarrow> 's resume_lib \<Rightarrow> 'e fwdlib \<Rightarrow> 'e hostlib \<Rightarrow> (nat \<Rightarrow> uint64) \<Rightarrow> ('e, 's, unit) sio \<Rightarrow>
     alloc_granted option option \<Rightarrow> ('e, 's, unit) sio \<Rightarrow> tls_config option \<Rightarrow> intercepted_conn \<Rightarrow> ('e, 's, bool) sio" where
  "serve_conn N R F H ids others late during tls ic = do {
     d \<leftarrow> Dial_stream N R ids (ic_TargetSvc ic) [];
     case d of
       None \<Rightarrow> State_Monad.return False
     | Some (Inl e) \<Rightarrow> do { _ \<leftarrow> CloseLocal_io H (EpLocal (ic_Local ic)); State_Monad.return True }
     | Some (Inr ref) \<Rightarrow> do {
         i \<leftarrow> obs (\<lambda>w. case objs w ref of None \<Rightarrow> 0 | Some rs \<Rightarrow> rs_ID rs);
         others;
         granted \<leftarrow> WaitForStreamMode late i;
         serve_stream N F H during tls ic ref granted;
         _ \<leftarrow> Close_stream N ref;
         _ \<leftarrow> CloseLocal_io H (EpLocal (ic_Local ic));
         State_Monad.return True
       }
   }"

text \<open>
  The goroutine of \<open>tryPromote\<close>; \<open>gone\<close> says that the context fires during the delay.
  The other arguments are those of \<open>Promote\<close>.
\<close>

definition tryPromote ::
  "'e netlib \<Rightarrow> 's resume_lib \<Rightarrow> (go_error + iface_addr list) \<Rightarrow> ('e, 's, unit) sio \<Rightarrow> go_error \<Rightarrow> bool \<Rightarrow> bool \<Rightarrow>
     nat \<Rightarrow> engine \<Rightarrow> ('e, 's, unit) sio" where
  "tryPromote N R ifaces others cerr pick gone ref eng =
     (if gone then State_Monad.return ()
      else do {
        emit (EvSleep 1000000000);
        r \<leftarrow> Promote N ifaces others cerr pick (Some ref) (Some eng) [] 0;
        case r of
          Inl e \<Rightarrow> State_Monad.return ()
        | Inr res \<Rightarrow> do {
            m \<leftarrow> MigrateToDirect N R (Some ref) (Some (cr_Conn res));
            case m of
              Some e \<Rightarrow> do { _ \<leftarrow> ConnClose_io N (cr_Conn res); State_Monad.return () }
            | None \<Rightarrow> State_Monad.return ()
          }
      })"

section \<open>The program\<close>

datatype outcome = Exit nat | Returned | Running

definition expose_flag :: "'e netlib \<Rightarrow> nat \<Rightarrow> flags \<Rightarrow> ('e, 's, nat option) sio" where
  "expose_flag N h f =
     (if fl_exposeSvc f = [] then State_Monad.return None
      else if fl_exposeTo f = [] then State_Monad.return (Some 2)
      else do {
        e \<leftarrow> Expose N (fl_exposeSvc f) (fl_exposeTo f) h;
        State_Monad.return (case e of Some _ \<Rightarrow> Some 1 | None \<Rightarrow> None)
      })"

definition start_consumer ::
  "unicode \<Rightarrow> (nat \<Rightarrow> (nat \<times> wake) list \<times> (go_error + listener)) \<Rightarrow> (go_error + listener) \<Rightarrow> flags \<Rightarrow>
     ('e, 'm, nat + interceptor_impl option) io" where
  "start_consumer u net ln f =
     (if fl_consumes f = [] then State_Monad.return (Inr None)
      else case startInterceptor u net ln (fl_intercept f) (fl_dnsAddr f) (fl_dnsSuffix f) (fl_consumes f) of
        (r, dns) \<Rightarrow> do {
          (if dns = None then State_Monad.return () else emit (EvGo (GoDNSRun 0)));
          case r of
            Inl e \<Rightarrow> State_Monad.return (Inl 1)
          | Inr ic \<Rightarrow> do { emit (EvGo GoRunConsumer); State_Monad.return (Inr (Some ic)) }
        })"

text \<open>What \<open>main\<close> starts once everything it reads from the control stream is done.\<close>

definition start_tasks ::
  "unicode \<Rightarrow> (nat \<Rightarrow> (nat \<times> wake) list \<times> (go_error + listener)) \<Rightarrow> (go_error + listener) \<Rightarrow> flags \<Rightarrow> nat option \<Rightarrow>
     ('e, 's, nat + nat option \<times> interceptor_impl option) sio" where
  "start_tasks u net tln f ln = do {
     EnableP2P True;
     (case ln of None \<Rightarrow> State_Monad.return () | Some l \<Rightarrow> emit (EvGo (GoAcceptDirect l)));
     c \<leftarrow> start_consumer u net tln f;
     State_Monad.return (case c of Inl code \<Rightarrow> Inl code | Inr ic \<Rightarrow> Inr (ln, ic))
   }"

text \<open>
  \<open>main\<close> from the session on up to \<open>RunWithReconnect\<close>: an exit code, or the P2P listener
  and the interceptor there are.  \<open>h\<close> is the handler that dials the exposed target.
\<close>

definition agent_setup ::
  "'e netlib \<Rightarrow> orp_lib \<Rightarrow> 'e oslib \<Rightarrow> unicode \<Rightarrow> (go_error + iface_addr list) \<Rightarrow> srflx_env \<Rightarrow>
     (nat \<Rightarrow> (nat \<times> wake) list \<times> (go_error + listener)) \<Rightarrow> (go_error + listener) \<Rightarrow> nat \<Rightarrow> flags \<Rightarrow> nat option \<Rightarrow>
     ('e, 's, nat + nat option \<times> interceptor_impl option) sio" where
  "agent_setup N L OS u ifaces sx net tln h f shared = do {
     fwd \<leftarrow> loadServerTLS OS (fl_cert f) (fl_key f) (fl_ca f);
     case fwd of
       Inl e \<Rightarrow> State_Monad.return (Inl 1)
     | Inr tls \<Rightarrow> do {
         SetForwardServerTLS (Some tls);
         x \<leftarrow> expose_flag N h f;
         case x of
           Some code \<Rightarrow> State_Monad.return (Inl code)
         | None \<Rightarrow> do {
             l \<leftarrow> p2p_listen N L OS ifaces sx f shared;
             case l of
               Inl code \<Rightarrow> State_Monad.return (Inl code)
             | Inr ln \<Rightarrow> start_tasks u net tln f ln
           }
       }
   }"

text \<open>The deferred calls of \<open>main\<close>, the last one first.\<close>

definition agent_teardown ::
  "'e netlib \<Rightarrow> 'e oslib \<Rightarrow> nat option \<Rightarrow> interceptor_impl option \<Rightarrow> ('e, 's, unit) sio" where
  "agent_teardown N OS ln ic = do {
     (case ic of None \<Rightarrow> State_Monad.return () | Some _ \<Rightarrow> emit EvInterceptorClose);
     (case ln of
        None \<Rightarrow> State_Monad.return ()
      | Some l \<Rightarrow> do { _ \<leftarrow> CloseP2PListener_io OS l; State_Monad.return () });
     c \<leftarrow> get ss_conn;
     _ \<leftarrow> ConnClose_io N c;
     State_Monad.return ()
   }"

definition agent_main ::
  "'e netlib \<Rightarrow> orp_lib \<Rightarrow> 's resume_lib \<Rightarrow> 'e oslib \<Rightarrow> unicode \<Rightarrow> (string list \<Rightarrow> string list) \<Rightarrow>
     (go_error + iface_addr list) \<Rightarrow> srflx_env \<Rightarrow> (nat \<Rightarrow> (nat \<times> wake) list \<times> (go_error + listener)) \<Rightarrow>
     (go_error + listener) \<Rightarrow> nat \<Rightarrow> ((go_error + stream) list \<times> attempt list) list \<Rightarrow> flags \<Rightarrow> ('e, 's, outcome) sio" where
  "agent_main N L R OS u order ifaces sx net tln h rounds f =
     (if fl_version f then State_Monad.return Returned
      else if fl_cert f = [] \<or> fl_key f = [] \<or> fl_ca f = [] \<or> fl_uri f = [] then State_Monad.return (Exit 2)
      else if ol_identityParse OS (fl_uri f) \<noteq> None then State_Monad.return (Exit 2)
      else do {
        tl \<leftarrow> loadClientTLS OS (fl_cert f) (fl_key f) (fl_ca f) (fl_serverName f);
        case tl of
          Inl e \<Rightarrow> State_Monad.return (Exit 1)
        | Inr tlsConf \<Rightarrow> do {
            d \<leftarrow> dial_relay N L OS u order f;
            case d of
              Inl code \<Rightarrow> State_Monad.return (Exit code)
            | Inr (s, shared, reconnectAddrs) \<Rightarrow> do {
                put_sess (\<lambda>_. s);
                st \<leftarrow> agent_setup N L OS u ifaces sx net tln h f shared;
                case st of
                  Inl code \<Rightarrow> State_Monad.return (Exit code)
                | Inr (ln, ic) \<Rightarrow> do {
                    r \<leftarrow> RunWithReconnect N L R reconnectAddrs rounds;
                    case r of
                      None \<Rightarrow> State_Monad.return Running
                    | Some res \<Rightarrow>
                        if (case res of None \<Rightarrow> False | Some e \<Rightarrow> \<not> errors_Is e Canceled) then State_Monad.return (Exit 1)
                        else do { agent_teardown N OS ln ic; State_Monad.return Returned }
                  }
              }
          }
      })"

section \<open>A connection and its stream are released\<close>

lemma tame_prod [tames]: "(\<And>a b. tame (f a b)) \<Longrightarrow> tame (case p of (a, b) \<Rightarrow> f a b)"
  by (cases p) simp

lemma tame_Dial_stream [tames]: "tame (Dial_stream N R ids target meth)"
  unfolding Dial_stream_def OpenStream_io_def by (intro tames tame_upd) simp_all

lemma tame_DialForward [tames]: "tame (DialForward F g tls)"
  unfolding DialForward_def fwd_io_defs fwd_Close_def Let_def by (intro tames)

lemma tame_serve_stream [tames]: "tame during \<Longrightarrow> tame (serve_stream N F H during tls ic ref granted)"
  unfolding serve_stream_def by (intro tames)

lemma Dial_stream_wrapper:
  assumes "run_state (Dial_stream N R ids target meth) w = (Some (Inr ref), w')"
  shows "\<exists>rs. objs w' ref = Some rs"
  using assms
  by (auto simp: Dial_stream_def wrapStream_def CancelStreamModeWaiter_def RegisterStreamModeWaiter_def run_simps
      split: sum.splits option.splits if_splits prod.splits)

lemma Dial_stream_returns:
  assumes "finite (dom (ss_streams (sess w)))" and "inj_on ids {id_pos w..id_pos w + card (dom (ss_streams (sess w)))}"
  shows "fst (run_state (Dial_stream N R ids target meth) w) \<noteq> None"
  using freshStreamID_found [OF assms]
  by (auto simp: Dial_stream_def wrapStream_def CancelStreamModeWaiter_def RegisterStreamModeWaiter_def run_simps
      split: sum.splits option.splits if_splits prod.splits)


section \<open>What actions add to the trace\<close>

definition emits :: "(event \<Rightarrow> bool) \<Rightarrow> ('e, 'm, 'a) io \<Rightarrow> bool" where
  "emits P m \<longleftrightarrow> (\<forall>w. \<exists>new. trace (snd (run_state m w)) = trace w @ new \<and> list_all P new)"

named_theorems emitting \<open>rules for what an action adds to the trace\<close>

lemma emitsD: "emits P m \<Longrightarrow> run_state m w = (a, w') \<Longrightarrow> \<exists>new. trace w' = trace w @ new \<and> list_all P new"
  by (metis emits_def snd_conv)

lemma emits_bind [emitting]:
  assumes "emits P m" and "\<And>a. emits P (f a)"
  shows "emits P (State_Monad.bind m f)"
  unfolding emits_def
proof
  fix w
  obtain a w1 where m: "run_state m w = (a, w1)" by fastforce
  obtain n1 where n1: "trace w1 = trace w @ n1" "list_all P n1" using emitsD [OF assms(1) m] by blast
  obtain n2 where n2: "trace (snd (run_state (f a) w1)) = trace w1 @ n2" "list_all P n2"
    using assms(2) [of a] unfolding emits_def by blast
  show "\<exists>new. trace (snd (run_state (State_Monad.bind m f) w)) = trace w @ new \<and> list_all P new"
    using m n1 n2 by (intro exI [of _ "n1 @ n2"]) (simp add: run_simps)
qed

lemma emits_return [emitting]: "emits P (State_Monad.return a)"
  by (simp add: emits_def run_simps)

lemma emits_cases [emitting]:
  "emits P m \<Longrightarrow> (\<And>a. emits P (f a)) \<Longrightarrow> emits P (case x of None \<Rightarrow> m | Some a \<Rightarrow> f a)"
  "(\<And>a. emits P (g a)) \<Longrightarrow> (\<And>b. emits P (h b)) \<Longrightarrow> emits P (case y of Inl a \<Rightarrow> g a | Inr b \<Rightarrow> h b)"
  "emits P m1 \<Longrightarrow> emits P m2 \<Longrightarrow> emits P (if b then m1 else m2)"
  "(\<And>a b. emits P (k a b)) \<Longrightarrow> emits P (case p of (a, b) \<Rightarrow> k a b)"
  by (auto split: option.split sum.split prod.split)

lemma emits_act [emitting]: "(\<And>a. list_all P (ev a)) \<Longrightarrow> emits P (act f ev)"
  by (simp add: emits_def run_simps)

lemma emits_emit [emitting]: "P ev \<Longrightarrow> emits P (emit ev)"
  by (simp add: emits_def run_simps)

lemma emits_session [emitting]: "emits P (get f)" "emits P (put_sess g)" "emits P (obs k)"
  by (simp_all add: emits_def run_simps)

lemma emits_DialWithDialer: "emits (\<lambda>_. True) (DialWithDialer N L d addr uri)"
  unfolding DialWithDialer_def io_defs by (intro emitting) simp_all

lemma emits_DialAnyHappy: "emits (\<lambda>_. True) (DialAnyHappy N L d addrs arr uri)"
proof -
  have "emits (\<lambda>_. True) (happy_loop N L d uri arr winner fe)" for winner fe
    by (induction arr arbitrary: winner fe)
      (auto simp: Close_session_def io_defs intro!: emitting emits_DialWithDialer)
  then show ?thesis
    unfolding DialAnyHappy_def by (intro emitting emits_DialWithDialer)
qed

section \<open>The dial and its fallback\<close>

lemma DialWithDialer_dialer:
  "run_state (DialWithDialer N L d addr uri) w = (Inr s, w') \<Longrightarrow> ss_dialer s = Some d \<and> \<not> ss_p2pEnabled s \<and> \<not> ss_reconnecting s"
  by (auto simp: DialWithDialer_def new_session_def run_simps split: sum.splits option.splits)

lemma happy_loop_dialer:
  assumes "run_state (happy_loop N L d uri addrs winner fe) w = ((Some s, fe'), w')"
    and "\<forall>s. winner = Some s \<longrightarrow> ss_dialer s = Some d \<and> \<not> ss_p2pEnabled s \<and> \<not> ss_reconnecting s"
  shows "ss_dialer s = Some d \<and> \<not> ss_p2pEnabled s \<and> \<not> ss_reconnecting s"
  using assms
proof (induction N L d uri addrs winner fe arbitrary: w rule: happy_loop.induct)
  case (2 N L d uri addr addrs winner fe)
  obtain r w1 where r: "run_state (DialWithDialer N L d addr uri) w = (r, w1)" by fastforce
  show ?case
  proof (cases r)
    case (Inl e)
    then show ?thesis using 2 r by (simp add: run_simps)
  next
    case (Inr s1)
    then have "ss_dialer s1 = Some d \<and> \<not> ss_p2pEnabled s1 \<and> \<not> ss_reconnecting s1" using DialWithDialer_dialer r by blast
    then show ?thesis
      using 2 r Inr by (cases winner) (auto simp: run_simps Close_session_def)
  qed
qed (simp add: run_simps)

lemma DialAnyHappy_dialer:
  assumes "run_state (DialAnyHappy N L d addrs arr uri) w = (Inr s, w')"
  shows "ss_dialer s = Some d \<and> \<not> ss_p2pEnabled s \<and> \<not> ss_reconnecting s"
proof (cases "length addrs = 1")
  case True
  then show ?thesis using assms by (auto simp: DialAnyHappy_def run_simps split: if_splits dest: DialWithDialer_dialer)
next
  case False
  then have "addrs \<noteq> []" using assms by (auto simp: DialAnyHappy_def run_simps)
  obtain wn fe w1 where h: "run_state (happy_loop N L d uri arr None None) w = ((wn, fe), w1)" by (metis prod.collapse)
  then have "wn = Some s"
    using assms False \<open>addrs \<noteq> []\<close> by (auto simp: DialAnyHappy_def all_failed_def run_simps split: option.splits)
  then show ?thesis using happy_loop_dialer h by blast
qed

text \<open>
  C18. The transport the agent ends up with, the endpoints it will reconnect to and the
  UDP socket it keeps always fit together: over QUIC it reconnects to the
  \<open>--relay\<close> endpoints, with the shared socket exactly when \<open>--p2p-listen\<close> is set; over TCP it
  reconnects to the \<open>--relay-tcp\<close> endpoints, and a socket bound for the QUIC attempt has
  been closed.  It falls back to TCP only if \<open>--relay-tcp\<close> is given, and fails with exit
  code 1 otherwise.
\<close>

theorem dial_relay_consistent:
  assumes "run_state (dial_relay N L OS u order f) w = (r, w')"
  shows "case r of
      Inl code \<Rightarrow> code = 1
    | Inr (s, sh, addrs) \<Rightarrow>
        (case sh of
           Some t \<Rightarrow> fl_p2pListen f \<noteq> [] \<and> addrs = endpoints u (fl_relay f) \<and> ss_dialer s = Some (SharedTransport t)
         | None \<Rightarrow> fl_p2pListen f = [] \<and> addrs = endpoints u (fl_relay f) \<and> ss_dialer s = Some DefaultDialer
             \<or> fl_relayTCP f \<noteq> [] \<and> addrs = endpoints u (fl_relayTCP f) \<and> ss_dialer s = Some TCPDialer
               \<and> (fl_p2pListen f \<noteq> [] \<longrightarrow> (\<exists>t. EvUDPBind (Some t) \<in> set (trace w') \<and> EvUDPClose t \<in> set (trace w'))))
        \<and> \<not> ss_p2pEnabled s \<and> \<not> ss_reconnecting s"
proof -
  obtain q w1 where q: "run_state (dial_quic N L OS u order f) w = (q, w1)" by fastforce
  show ?thesis
  proof (cases q)
    case (Inl code)
    then have "code = 1" using q by (auto simp: dial_quic_def Let_def run_simps split: if_splits sum.splits prod.splits)
    then show ?thesis using q Inl assms by (auto simp: dial_relay_def run_simps)
  next
    case (Inr sq)
    obtain so sh where sq: "sq = (so, sh)" by fastforce
    show ?thesis
    proof (cases so)
      case (Some s)
      then have "(case sh of Some t \<Rightarrow> fl_p2pListen f \<noteq> [] \<and> ss_dialer s = Some (SharedTransport t)
          | None \<Rightarrow> fl_p2pListen f = [] \<and> ss_dialer s = Some DefaultDialer) \<and> \<not> ss_p2pEnabled s \<and> \<not> ss_reconnecting s"
        using q Inr sq
        by (auto simp: dial_quic_def Let_def run_simps split: if_splits sum.splits prod.splits dest!: DialAnyHappy_dialer)
      then show ?thesis using Some Inr sq q assms by (auto simp: dial_relay_def run_simps split: option.splits)
    next
      case None
      then have tcp: "fl_relayTCP f \<noteq> []"
        and bound: "case sh of None \<Rightarrow> fl_p2pListen f = [] | Some t \<Rightarrow> fl_p2pListen f \<noteq> [] \<and> EvUDPBind (Some t) \<in> set (trace w1)"
        using q Inr sq emits_DialAnyHappy
        by (auto simp: dial_quic_def Let_def run_simps split: if_splits sum.splits prod.splits dest!: emitsD [OF emits_DialAnyHappy])
      let ?tcp = "endpoints u (fl_relayTCP f)"
      let ?w2 = "case sh of None \<Rightarrow> w1 | Some t \<Rightarrow> snd (run_state (CloseShared_io OS t) w1)"
      obtain d w3 where d: "run_state (DialAnyHappy N L TCPDialer ?tcp (order ?tcp) (fl_uri f)) ?w2 = (d, w3)" by fastforce
      have r: "r = (case d of Inl e \<Rightarrow> Inl 1 | Inr s \<Rightarrow> Inr (s, None, ?tcp))" "w' = w3"
        using assms q Inr sq None d by (auto simp: dial_relay_def Let_def run_simps split: option.splits)
      have "fl_p2pListen f \<noteq> [] \<longrightarrow> (\<exists>t. EvUDPBind (Some t) \<in> set (trace w3) \<and> EvUDPClose t \<in> set (trace w3))"
        using bound emitsD [OF emits_DialAnyHappy d] by (auto simp: run_simps split: option.splits)
      then show ?thesis using r tcp d by (auto split: sum.splits dest: DialAnyHappy_dialer)
    qed
  qed
qed

section \<open>The order in which things start\<close>

definition not_reader :: "event \<Rightarrow> bool" where
  "not_reader ev \<longleftrightarrow> ev \<noteq> EvGo GoControlReader"

lemma emits_loadServerTLS: "emits not_reader (loadServerTLS OS c k a)"
  unfolding loadServerTLS_def load_pair_def by (intro emitting) simp_all

lemma emits_expose: "emits not_reader (expose_flag N h f)"
  unfolding expose_flag_def Expose_def io_defs by (intro emitting) (simp_all add: not_reader_def)

lemma emits_query: "emits not_reader (QueryServerReflexive_session N L t sel rnd ctr)"
  unfolding QueryServerReflexive_session_def QueryServerReflexive_def readObserved_def io_defs Let_def
  by (cases sel) (simp_all add: emitting not_reader_def)

lemma emits_p2p_listen: "emits not_reader (p2p_listen N L OS ifaces sx f shared)"
  unfolding p2p_listen_def Listen_io_def SetLocalCandidates_def Let_def
  by (intro emitting emits_loadServerTLS emits_query) (simp_all add: not_reader_def)

lemma loadServerTLS_sess: "run_state (loadServerTLS OS c k a) w = (r, w') \<Longrightarrow> sess w' = sess w"
  by (auto simp: loadServerTLS_def load_pair_def run_simps split: sum.splits)

lemma expose_flag_sess:
  "run_state (expose_flag N h f) w = (r, w') \<Longrightarrow> ss_p2pEnabled (sess w') = ss_p2pEnabled (sess w) \<and> ss_ctrl (sess w') = ss_ctrl (sess w)
    \<and> ss_reconnecting (sess w') = ss_reconnecting (sess w)"
  by (auto simp: expose_flag_def Expose_def run_simps split: sum.splits option.splits if_splits)

lemma query_sess: "run_state (QueryServerReflexive_session N L t sel rnd ctr) w = (r, w') \<Longrightarrow> sess w' = sess w"
  by (auto simp: QueryServerReflexive_session_def QueryServerReflexive_def readObserved_def Let_def run_simps
      split: sum.splits option.splits if_splits srflx_sel.splits)

lemma p2p_listen_sess:
  assumes "run_state (p2p_listen N L OS ifaces sx f shared) w = (r, w')"
  shows "\<exists>cs. sess w' = (sess w)\<lparr>ss_localCandidates := cs\<rparr>"
proof -
  have same: "\<exists>cs. s = s\<lparr>ss_localCandidates := cs\<rparr>" for s :: session
    by (intro exI [of _ "ss_localCandidates s"]) simp
  then show ?thesis
    using assms unfolding p2p_listen_def
    by (auto simp: Let_def SetLocalCandidates_def run_simps dest!: loadServerTLS_sess query_sess
        split: option.splits if_splits sum.splits prod.splits)
qed

text \<open>The goroutines \<open>main\<close> starts behind the control reader.\<close>

definition late_tasks :: "nat option \<Rightarrow> bool \<Rightarrow> bool \<Rightarrow> task list" where
  "late_tasks ln dns ic = (case ln of None \<Rightarrow> [] | Some l \<Rightarrow> [GoAcceptDirect l])
     @ (if dns then [GoDNSRun 0] else []) @ (if ic then [GoRunConsumer] else [])"

lemma start_consumer_run:
  assumes "run_state (start_consumer u net tln f) w = (c, w')"
  shows "(\<exists>dns. trace w' = trace w @ map EvGo (late_tasks None dns (\<exists>ic. c = Inr (Some ic)))) \<and> sess w' = sess w"
proof (cases "fl_consumes f = []")
  case True
  then show ?thesis
    using assms by (intro conjI exI [of _ False]) (auto simp: start_consumer_def run_simps late_tasks_def)
next
  case False
  obtain x dns where "startInterceptor u net tln (fl_intercept f) (fl_dnsAddr f) (fl_dnsSuffix f) (fl_consumes f) = (x, dns)"
    by fastforce
  then show ?thesis
    using assms False by (intro conjI exI [of _ "dns \<noteq> None"]; cases x; cases dns)
      (auto simp: start_consumer_def run_simps late_tasks_def)
qed

lemma start_tasks_run:
  assumes "run_state (start_tasks u net tln f ln) w = (r, w')" and "\<not> ss_p2pEnabled (sess w)"
  shows "(\<exists>dns. trace w' = trace w @ EvGo GoControlReader # map EvGo (late_tasks ln dns (\<exists>ic. r = Inr (ln, Some ic))))
    \<and> (\<forall>l ic. r = Inr (l, ic) \<longrightarrow> l = ln)
    \<and> ss_p2pEnabled (sess w') \<and> ss_pendingMode (sess w') \<noteq> None \<and> ss_pendingAnswers (sess w') \<noteq> None"
proof -
  let ?m = "do { EnableP2P True; (case ln of None \<Rightarrow> State_Monad.return () | Some l \<Rightarrow> emit (EvGo (GoAcceptDirect l))) }"
  obtain w1 where w1: "run_state ?m w = ((), w1)" by (cases "run_state ?m w") simp
  have tr1: "trace w1 = trace w @ EvGo GoControlReader # (case ln of None \<Rightarrow> [] | Some l \<Rightarrow> [EvGo (GoAcceptDirect l)])"
    and on: "ss_p2pEnabled (sess w1) \<and> ss_pendingMode (sess w1) \<noteq> None \<and> ss_pendingAnswers (sess w1) \<noteq> None"
    using w1 assms(2) by (cases ln; auto simp: EnableP2P_def run_simps)+
  obtain c w2 where w2: "run_state (start_consumer u net tln f) w1 = (c, w2)" by fastforce
  then have r: "r = (case c of Inl code \<Rightarrow> Inl code | Inr ic \<Rightarrow> Inr (ln, ic))" "w' = w2"
    using assms(1) w1 by (auto simp: start_tasks_def run_simps split: prod.splits)
  then have "(\<exists>ic. r = Inr (ln, Some ic)) = (\<exists>ic. c = Inr (Some ic))" "\<forall>l ic. r = Inr (l, ic) \<longrightarrow> l = ln"
    by (auto split: sum.splits)
  then show ?thesis
    using start_consumer_run [OF w2] tr1 on r(2) by (cases ln) (auto simp: late_tasks_def)
qed

text \<open>
  C16. \<open>main\<close> starts its parts in the order they depend on each other: everything it reads
  from the control stream itself (the registration of a service, the reflexive query)
  is done before the control reader starts; after that \<open>main\<close> only starts goroutines:
  the direct listener if there is one, the DNS server, and the consumer, which
  therefore never dials before the waiter tables and the reader exist.
\<close>

theorem agent_setup_order:
  assumes "run_state (agent_setup N L OS u ifaces sx net tln h f shared) w = (r, w')" and "\<not> ss_p2pEnabled (sess w)"
  shows "\<exists>pre post. trace w' = trace w @ pre @ post \<and> EvGo GoControlReader \<notin> set pre
    \<and> (case r of
         Inl code \<Rightarrow> post = [] \<or> (\<exists>ln dns. post = EvGo GoControlReader # map EvGo (late_tasks ln dns False))
       | Inr (ln, ic) \<Rightarrow> (\<exists>dns. post = EvGo GoControlReader # map EvGo (late_tasks ln dns (ic \<noteq> None)))
           \<and> ss_p2pEnabled (sess w') \<and> ss_pendingMode (sess w') \<noteq> None \<and> ss_pendingAnswers (sess w') \<noteq> None)"
proof -
  obtain r1 w1 where w1: "run_state (loadServerTLS OS (fl_cert f) (fl_key f) (fl_ca f)) w = (r1, w1)" by fastforce
  obtain n1 where n1: "trace w1 = trace w @ n1" "list_all not_reader n1" using emitsD [OF emits_loadServerTLS w1] by blast
  show ?thesis
  proof (cases r1)
    case (Inl e)
    then show ?thesis
      using assms(1) w1 n1 by (intro exI [of _ n1] exI [of _ "[]"]) (auto simp: agent_setup_def run_simps not_reader_def list_all_iff)
  next
    case (Inr tls)
    let ?w1 = "w1\<lparr>sess := (sess w1)\<lparr>ss_forwardTLS := Some tls\<rparr>\<rparr>"
    obtain x w2 where w2: "run_state (expose_flag N h f) ?w1 = (x, w2)" by fastforce
    obtain n2 where n2: "trace w2 = trace w1 @ n2" "list_all not_reader n2" using emitsD [OF emits_expose w2] by auto
    obtain l w3 where w3: "run_state (p2p_listen N L OS ifaces sx f shared) w2 = (l, w3)" by fastforce
    obtain n3 where n3: "trace w3 = trace w2 @ n3" "list_all not_reader n3" using emitsD [OF emits_p2p_listen w3] by blast
    have off: "\<not> ss_p2pEnabled (sess w3)"
      using assms(2) loadServerTLS_sess [OF w1] expose_flag_sess [OF w2] p2p_listen_sess [OF w3] by auto
    have pre: "EvGo GoControlReader \<notin> set (n1 @ n2 @ n3)" using n1 n2 n3 by (auto simp: not_reader_def list_all_iff)
    consider code where "x = Some code" | code where "x = None" "l = Inl code" | ln where "x = None" "l = Inr ln"
      by (cases x; cases l) auto
    then show ?thesis
    proof cases
      case 1
      then have "r = Inl code" "w' = w2"
        using assms(1) w1 Inr w2 by (auto simp: agent_setup_def SetForwardServerTLS_def run_simps)
      then show ?thesis using n1 n2 pre by (intro exI [of _ "n1 @ n2"] exI [of _ "[]"]) simp
    next
      case 2
      then have "r = Inl code" "w' = w3"
        using assms(1) w1 Inr w2 w3 by (auto simp: agent_setup_def SetForwardServerTLS_def run_simps)
      then show ?thesis using n1 n2 n3 pre by (intro exI [of _ "n1 @ n2 @ n3"] exI [of _ "[]"]) simp
    next
      case 3
      then have "run_state (start_tasks u net tln f ln) w3 = (r, w')"
        using assms(1) w1 Inr w2 w3 by (auto simp: agent_setup_def SetForwardServerTLS_def run_simps)
      from start_tasks_run [OF this off] obtain dns where
        tr: "trace w' = trace w3 @ EvGo GoControlReader # map EvGo (late_tasks ln dns (\<exists>ic. r = Inr (ln, Some ic)))"
        and res: "\<forall>l ic. r = Inr (l, ic) \<longrightarrow> l = ln"
        and on: "ss_p2pEnabled (sess w') \<and> ss_pendingMode (sess w') \<noteq> None \<and> ss_pendingAnswers (sess w') \<noteq> None" by blast
      show ?thesis
      proof (intro exI conjI)
        show "trace w' = trace w @ (n1 @ n2 @ n3)
            @ (EvGo GoControlReader # map EvGo (late_tasks ln dns (\<exists>ic. r = Inr (ln, Some ic))))" using tr n1 n2 n3 by simp
        show "case r of
           Inl code \<Rightarrow> EvGo GoControlReader # map EvGo (late_tasks ln dns (\<exists>ic. r = Inr (ln, Some ic))) = []
             \<or> (\<exists>ln' dns'. EvGo GoControlReader # map EvGo (late_tasks ln dns (\<exists>ic. r = Inr (ln, Some ic)))
                 = EvGo GoControlReader # map EvGo (late_tasks ln' dns' False))
         | Inr (ln', ic) \<Rightarrow> (\<exists>dns'. EvGo GoControlReader # map EvGo (late_tasks ln dns (\<exists>ic. r = Inr (ln, Some ic)))
                 = EvGo GoControlReader # map EvGo (late_tasks ln' dns' (ic \<noteq> None)))
             \<and> ss_p2pEnabled (sess w') \<and> ss_pendingMode (sess w') \<noteq> None \<and> ss_pendingAnswers (sess w') \<noteq> None"
          using res on by (cases r) auto
      qed (rule pre)
    qed
  qed
qed

text \<open>The steps of a set-up that succeeds.\<close>

lemma agent_setup_ok:
  assumes "run_state (agent_setup N L OS u ifaces sx net tln h f shared) w = (Inr (ln, ic), w')"
  obtains tls w1 w2 w3 where "run_state (loadServerTLS OS (fl_cert f) (fl_key f) (fl_ca f)) w = (Inr tls, w1)"
    "run_state (expose_flag N h f) (w1\<lparr>sess := (sess w1)\<lparr>ss_forwardTLS := Some tls\<rparr>\<rparr>) = (None, w2)"
    "run_state (p2p_listen N L OS ifaces sx f shared) w2 = (Inr ln, w3)"
    "run_state (start_tasks u net tln f ln) w3 = (Inr (ln, ic), w')"
proof -
  obtain r1 w1 where w1: "run_state (loadServerTLS OS (fl_cert f) (fl_key f) (fl_ca f)) w = (r1, w1)" by fastforce
  then obtain tls where tls: "r1 = Inr tls" using assms by (cases r1) (auto simp: agent_setup_def run_simps)
  obtain x w2 where w2: "run_state (expose_flag N h f) (w1\<lparr>sess := (sess w1)\<lparr>ss_forwardTLS := Some tls\<rparr>\<rparr>) = (x, w2)" by fastforce
  then have x: "x = None"
    using assms w1 tls by (cases x) (auto simp: agent_setup_def SetForwardServerTLS_def run_simps)
  obtain l w3 where w3: "run_state (p2p_listen N L OS ifaces sx f shared) w2 = (l, w3)" by fastforce
  then obtain ln' where l: "l = Inr ln'"
    using assms w1 tls w2 x by (cases l) (auto simp: agent_setup_def SetForwardServerTLS_def run_simps)
  have run: "run_state (start_tasks u net tln f ln') w3 = (Inr (ln, ic), w')"
    using assms w1 tls w2 x w3 l by (simp add: agent_setup_def SetForwardServerTLS_def run_simps)
  then have "ln' = ln" by (auto simp: start_tasks_def run_simps split: prod.splits sum.splits)
  then show thesis using that w1 tls w2 x w3 l run by blast
qed

lemma p2p_listen_ok:
  assumes "run_state (p2p_listen N L OS ifaces sx f shared) w = (Inr (Some ln), w')"
  obtains sh tls port q w1 w2 w3 cs where "shared = Some sh" "fl_p2pListen f \<noteq> []"
    "run_state (loadServerTLS OS (fl_cert f) (fl_key f) (fl_ca f)) w = (Inr tls, w1)"
    "run_state (Listen_io OS sh tls) w1 = (Inr (ln, port), w2)"
    "run_state (QueryServerReflexive_session N L 3000000000 (sx_sel sx) (sx_rnd sx) (sx_ctr sx)) w2 = (q, w3)"
    "add_advertise f (case q of Inl e \<Rightarrow> HostCandidates ifaces port | Inr srflx \<Rightarrow> srflx # HostCandidates ifaces port) = Inr cs"
    "w' = w3\<lparr>sess := (sess w3)\<lparr>ss_localCandidates := toPBCandidates cs\<rparr>\<rparr>"
proof -
  from assms obtain sh where sh: "shared = Some sh" "fl_p2pListen f \<noteq> []"
    by (auto simp: p2p_listen_def run_simps split: option.splits if_splits)
  obtain t w1 where w1: "run_state (loadServerTLS OS (fl_cert f) (fl_key f) (fl_ca f)) w = (t, w1)" by fastforce
  then obtain tls where tls: "t = Inr tls" using assms sh by (cases t) (auto simp: p2p_listen_def run_simps)
  obtain l w2 where w2: "run_state (Listen_io OS sh tls) w1 = (l, w2)" by fastforce
  then obtain ln' port where l: "l = Inr (ln', port)"
    using assms sh w1 tls by (cases l) (auto simp: p2p_listen_def run_simps)
  obtain q w3 where w3: "run_state (QueryServerReflexive_session N L 3000000000 (sx_sel sx) (sx_rnd sx) (sx_ctr sx)) w2 = (q, w3)"
    by fastforce
  let ?locals = "case q of Inl e \<Rightarrow> HostCandidates ifaces port | Inr srflx \<Rightarrow> srflx # HostCandidates ifaces port"
  have run: "run_state (case add_advertise f ?locals of
        Inl code \<Rightarrow> State_Monad.return (Inl code)
      | Inr cs \<Rightarrow> do { SetLocalCandidates (toPBCandidates cs); State_Monad.return (Inr (Some ln')) }) w3 = (Inr (Some ln), w')"
    using assms sh w1 tls w2 l w3 by (simp add: p2p_listen_def Let_def run_bind)
  then obtain cs where cs: "add_advertise f ?locals = Inr cs" by (cases "add_advertise f ?locals") (auto simp: run_simps)
  then have "ln' = ln" "w' = w3\<lparr>sess := (sess w3)\<lparr>ss_localCandidates := toPBCandidates cs\<rparr>\<rparr>"
    using run by (auto simp: SetLocalCandidates_def run_simps)
  then show thesis using that sh w1 tls w2 l w3 cs by blast
qed

lemma start_tasks_sess:
  "run_state (start_tasks u net tln f ln) w = (r, w') \<Longrightarrow>
    ss_ctrl (sess w') = ss_ctrl (sess w) \<and> ss_reconnecting (sess w') = ss_reconnecting (sess w)"
  by (cases ln) (auto simp: start_tasks_def EnableP2P_def run_simps split: prod.splits if_splits dest!: start_consumer_run)

lemma p2p_listen_timeout:
  assumes "run_state (p2p_listen N L OS ifaces sx f shared) w = (Inr (Some ln), w')" and "\<not> ss_p2pEnabled (sess w)"
    and "sx_sel sx \<noteq> SelDone" and "\<forall>m e. fst (nl_WriteFrame N (ss_ctrl (sess w)) FtObservedAddrQuery m e) = None"
  shows "EvGo (GoReadObserved (ss_ctrl (sess w))) \<in> set (drop (length (trace w)) (trace w'))"
  using assms(1)
proof (rule p2p_listen_ok)
  fix sh tls port q w1 w2 w3 cs
  assume w1: "run_state (loadServerTLS OS (fl_cert f) (fl_key f) (fl_ca f)) w = (Inr tls, w1)"
    and w2: "run_state (Listen_io OS sh tls) w1 = (Inr (ln, port), w2)"
    and w3: "run_state (QueryServerReflexive_session N L 3000000000 (sx_sel sx) (sx_rnd sx) (sx_ctr sx)) w2 = (q, w3)"
    and w': "w' = w3\<lparr>sess := (sess w3)\<lparr>ss_localCandidates := toPBCandidates cs\<rparr>\<rparr>"
  have sess: "sess w2 = sess w" using loadServerTLS_sess [OF w1] w2 by (auto simp: run_simps)
  obtain n where n: "trace w2 = trace w @ n"
    using emitsD [OF emits_loadServerTLS w1] w2 by (auto simp: run_simps)
  have "\<exists>n3. trace w3 = trace w2 @ n3 \<and> EvGo (GoReadObserved (ss_ctrl (sess w))) \<in> set n3"
    using w3 assms(2-4) sess
    by (cases "sx_sel sx") (auto simp: QueryServerReflexive_session_def QueryServerReflexive_def Let_def run_simps)
  then show ?thesis using w' n by auto
qed

text \<open>
  C17. When the reflexive query gives up (its timer or the context fires first), the agent
  ends up with two readers of the same control stream: the goroutine the query left
  behind and the control reader \<open>EnableP2P\<close> starts afterwards, so the next frame of the
  relay may go to the wrong one and be lost.
\<close>

theorem srflx_timeout_two_readers:
  assumes "run_state (agent_setup N L OS u ifaces sx net tln h f shared) w = (Inr (Some ln, ic), w')"
    and "\<not> ss_p2pEnabled (sess w)" and "sx_sel sx \<noteq> SelDone"
    and "\<forall>m e. fst (nl_WriteFrame N (ss_ctrl (sess w)) FtObservedAddrQuery m e) = None"
  shows "\<exists>pre post. trace w' = trace w @ pre @ EvGo GoControlReader # post
    \<and> EvGo (GoReadObserved (ss_ctrl (sess w'))) \<in> set pre"
proof -
  obtain tls w1 w2 w3 where w1: "run_state (loadServerTLS OS (fl_cert f) (fl_key f) (fl_ca f)) w = (Inr tls, w1)"
    and w2: "run_state (expose_flag N h f) (w1\<lparr>sess := (sess w1)\<lparr>ss_forwardTLS := Some tls\<rparr>\<rparr>) = (None, w2)"
    and w3: "run_state (p2p_listen N L OS ifaces sx f shared) w2 = (Inr (Some ln), w3)"
    and w': "run_state (start_tasks u net tln f (Some ln)) w3 = (Inr (Some ln, ic), w')"
    using assms(1) by (rule agent_setup_ok)
  let ?ctrl = "ss_ctrl (sess w)"
  have sess2: "ss_ctrl (sess w2) = ?ctrl" "ss_p2pEnabled (sess w2) = False"
    using loadServerTLS_sess [OF w1] expose_flag_sess [OF w2] assms(2) by simp_all
  have sess3: "ss_ctrl (sess w3) = ?ctrl" "\<not> ss_p2pEnabled (sess w3)" using p2p_listen_sess [OF w3] sess2 by auto
  have "EvGo (GoReadObserved ?ctrl) \<in> set (drop (length (trace w2)) (trace w3))"
    using p2p_listen_timeout [OF w3] sess2 assms(3,4) by simp
  moreover obtain n1 n2 n3 where "trace w1 = trace w @ n1" "trace w2 = trace w1 @ n2" "trace w3 = trace w2 @ n3"
    using emitsD [OF emits_loadServerTLS w1] emitsD [OF emits_expose w2] emitsD [OF emits_p2p_listen w3] by auto
  moreover obtain post where "trace w' = trace w3 @ EvGo GoControlReader # post" "ss_ctrl (sess w') = ss_ctrl (sess w3)"
    using start_tasks_run [OF w' sess3(2)] start_tasks_sess [OF w'] by blast
  ultimately show ?thesis using sess3(1) by (intro exI [of _ "n1 @ n2 @ n3"] exI [of _ post]) simp
qed

lemma ParseAddr_valid: "ParseAddr s = Some a \<Longrightarrow> IsValid a"
  by (auto simp: ParseAddr_def parseIPv4_def parseIPv6_def AddrFrom4_def IsValid_def split: list.splits if_splits prod.splits)

lemma ParseAddrPort_valid: "ParseAddrPort s = Some a \<Longrightarrow> IsValid (fst a)"
  by (auto simp: ParseAddrPort_def Let_def split: option.splits if_splits prod.splits dest: ParseAddr_valid)

lemma toPBCandidates_toPB: "toPBCandidates cs = toPB cs"
proof -
  have "fold (\<lambda>c out. out @ [toPBOne c]) cs acc = acc @ map toPBOne cs" for acc
    by (induction cs arbitrary: acc) simp_all
  then show ?thesis by (simp add: toPBCandidates_def toPB_def toPBOne_def)
qed

lemma host_valid: "c \<in> set (HostCandidates ifaces port) \<Longrightarrow> valid_cand c \<and> Priority c \<le> 80"
proof -
  assume "c \<in> set (HostCandidates ifaces port)"
  then obtain a where "hostCandidate port a = Some c" by (auto simp: HostCandidates_def set_map_filter split: sum.splits)
  then obtain ip where ip: "\<not> unroutable (Unmap ip)" "c = \<lparr>Kind = ''host'', Addr = (Unmap ip, port), Priority = hostPriority (Unmap ip)\<rparr>"
    by (auto simp: hostCandidate_Some)
  have "Unmap (Unmap ip) = Unmap ip" by (cases ip) auto
  then show ?thesis
    using hostPriority_cases [OF ip(1)] ip by (auto simp: valid_cand_def unroutable_def)
qed

lemma query_candidate:
  "run_state (QueryServerReflexive_session N L t sel rnd ctr) w = (Inr c, w') \<Longrightarrow> valid_cand c \<and> Kind c = ''srflx'' \<and> Priority c = 20"
  by (auto simp: QueryServerReflexive_session_def QueryServerReflexive_def readObserved_def Let_def run_simps valid_cand_def
      dest: ParseAddr_valid split: sum.splits option.splits if_splits srflx_sel.splits)


section \<open>How the program ends\<close>

lemma setup_not_reconnecting:
  assumes "run_state (agent_setup N L OS u ifaces sx net tln h f shared) w = (Inr (ln, ic), w')"
  shows "ss_reconnecting (sess w') = ss_reconnecting (sess w)"
  using assms
  by (rule agent_setup_ok) (auto dest!: loadServerTLS_sess expose_flag_sess p2p_listen_sess start_tasks_sess)

lemma dial_relay_fresh: "run_state (dial_relay N L OS u order f) w = (Inr (s, sh, addrs), w') \<Longrightarrow> \<not> ss_reconnecting s"
  by (auto simp: dial_relay_def dial_quic_def Let_def run_simps dest: DialAnyHappy_dialer
      split: sum.splits option.splits if_splits prod.splits)

lemma dial_relay_code: "run_state (dial_relay N L OS u order f) w = (Inl code, w') \<Longrightarrow> code = 1"
  by (auto simp: dial_relay_def dial_quic_def Let_def run_simps split: sum.splits option.splits if_splits prod.splits)

lemma agent_setup_code:
  assumes "run_state (agent_setup N L OS u ifaces sx net tln h f shared) w = (Inl code, w')"
  shows "code = 1 \<or> code = 2"
proof -
  have "start_consumer u net tln f = m \<Longrightarrow> run_state m w = (Inl c, w') \<Longrightarrow> c = 1" for m and w w' :: "('a, 'b) sworld" and c
    by (auto simp: start_consumer_def run_simps split: if_splits prod.splits sum.splits)
  then have tasks: "run_state (start_tasks u net tln f ln) w = (Inl c, w') \<Longrightarrow> c = 1" for ln c and w w' :: "('a, 'b) sworld"
    by (auto simp: start_tasks_def run_simps split: prod.splits sum.splits)
  have listen: "run_state (p2p_listen N L OS ifaces sx f shared) w = (Inl c, w') \<Longrightarrow> c = 1 \<or> c = 2" for c and w w' :: "('a, 'b) sworld"
    by (auto simp: p2p_listen_def add_advertise_def Let_def run_simps split: option.splits if_splits sum.splits prod.splits)
  have expose: "run_state (expose_flag N h f) w = (Some c, w') \<Longrightarrow> c = 1 \<or> c = 2" for c and w w' :: "('a, 'b) sworld"
    by (auto simp: expose_flag_def run_simps split: option.splits if_splits prod.splits)
  show ?thesis
    using assms tasks listen expose unfolding agent_setup_def
    by (auto simp: run_simps split: sum.splits option.splits prod.splits)
qed

lemma agent_teardown_run:
  assumes "run_state (agent_teardown N OS ln ic) w = ((), w')"
  shows "trace w' = trace w @ (if ic \<noteq> None then [EvInterceptorClose] else [])
      @ (case ln of None \<Rightarrow> [] | Some l \<Rightarrow> [EvListenerClose l]) @ [EvConnClose (ss_conn (sess w'))]"
  using assms by (cases ic; cases ln) (auto simp: agent_teardown_def run_simps)


section \<open>Concrete runs\<close>

definition demo_os :: "script oslib" where
  "demo_os = \<lparr>ol_LoadX509KeyPair = (\<lambda>c k e. (Inr 1, e)), ol_ReadFile = (\<lambda>p e. (Inr [], e)), ol_AppendCertsFromPEM = (\<lambda>b. Some 2),
     ol_identityParse = (\<lambda>s. if s = ''agent'' then None else Some (LibError 1)), ol_NewSharedTransport = (\<lambda>a e. (Inr 4, e)),
     ol_CloseShared = (\<lambda>t e. (None, e)), ol_Listen = (\<lambda>t c e. (Inr (6, 7445), e)), ol_CloseListener = (\<lambda>l e. (None, e))\<rparr>"

definition demo_flags :: flags where
  "demo_flags = \<lparr>fl_relay = ''r1'', fl_cert = ''c'', fl_key = ''k'', fl_ca = ''a'', fl_uri = ''agent'', fl_exposeSvc = [], fl_exposeTo = [],
     fl_intercept = ''tproxy'', fl_dnsAddr = ''127.0.0.1:5353'', fl_dnsSuffix = ''outrelay'', fl_serverName = ''localhost'',
     fl_p2pListen = ''0.0.0.0:7445'', fl_p2pAdvertise = ''1.2.3.4:5'', fl_relayTCP = ''t1'', fl_version = False, fl_consumes = []\<rparr>"

definition demo_srflx :: "srflx_sel \<Rightarrow> srflx_env" where
  "demo_srflx s = \<lparr>sx_sel = s, sx_rnd = 0, sx_ctr = 0\<rparr>"

definition setup_world :: "(script, ring_view) sworld" where
  "setup_world = start_sworld idle_script (new_session 1 2 ''agent'' (SharedTransport 4))"

definition ascii_only :: unicode where
  "ascii_only = \<lparr>u_ToLower = id, u_TrimSpace = id\<rparr>"

lemmas setup_run_defs = agent_setup_def p2p_listen_def add_advertise_def expose_flag_def start_tasks_def start_consumer_def
  loadServerTLS_def load_pair_def SetForwardServerTLS_def SetLocalCandidates_def EnableP2P_def QueryServerReflexive_session_def
  QueryServerReflexive_def HostCandidates_def Let_def demo_os_def demo_flags_def demo_srflx_def setup_world_def
  start_sworld_def new_session_def script_defs run_simps

lemma demo_address: "ParseAddr ''1.2.3.4'' = Some (Addr4 0x01020304)"
proof -
  have "Uint32 [1, 2, 3, 4] = 0x01020304" by code_simp
  then show ?thesis by (simp add: ParseAddr_def parseIPv4_def parseIPv4Fields_def dec_digit_def AddrFrom4_def)
qed

lemma demo_advertise: "ParseAddrPort ''1.2.3.4:5'' = Some (Addr4 0x01020304, 5)"
  by (simp add: ParseAddrPort_def last_cut_def ParseUint_def dec_digit_def demo_address)

definition reliable :: "script netlib" where
  "reliable = scripted\<lparr>nl_WriteFrame := (\<lambda>st t m e. (None, e))\<rparr>"

lemma demo_setup:
  obtains w' where "run_state (agent_setup reliable scripted_orp demo_os ascii_only (Inr []) (demo_srflx SelTimer) demo_net
      (Inl EOF) 3 demo_flags (Some 4)) setup_world = (Inr (Some 6, None), w')"
  by (simp add: setup_run_defs demo_advertise reliable_def)

theorem agent_setup_order_witness:
  "\<exists>w' pre post dns. run_state (agent_setup reliable scripted_orp demo_os ascii_only (Inr []) (demo_srflx SelTimer) demo_net
      (Inl EOF) 3 demo_flags (Some 4)) setup_world = (Inr (Some 6, None), w')
    \<and> trace w' = pre @ EvGo GoControlReader # map EvGo (late_tasks (Some 6) dns False) \<and> EvGo GoControlReader \<notin> set pre"
proof -
  obtain w' where run: "run_state (agent_setup reliable scripted_orp demo_os ascii_only (Inr []) (demo_srflx SelTimer) demo_net
      (Inl EOF) 3 demo_flags (Some 4)) setup_world = (Inr (Some 6, None), w')" by (rule demo_setup)
  have "\<not> ss_p2pEnabled (sess setup_world)" "trace setup_world = []"
    by (simp_all add: setup_world_def start_sworld_def new_session_def)
  with agent_setup_order [OF run] run show ?thesis by auto
qed

theorem srflx_timeout_two_readers_witness:
  "\<exists>w' pre post. run_state (agent_setup reliable scripted_orp demo_os ascii_only (Inr []) (demo_srflx SelTimer) demo_net
      (Inl EOF) 3 demo_flags (Some 4)) setup_world = (Inr (Some 6, None), w')
    \<and> trace w' = pre @ EvGo GoControlReader # post \<and> EvGo (GoReadObserved (ss_ctrl (sess w'))) \<in> set pre"
proof -
  obtain w' where run: "run_state (agent_setup reliable scripted_orp demo_os ascii_only (Inr []) (demo_srflx SelTimer) demo_net
      (Inl EOF) 3 demo_flags (Some 4)) setup_world = (Inr (Some 6, None), w')" by (rule demo_setup)
  have hyps: "\<not> ss_p2pEnabled (sess setup_world)" "sx_sel (demo_srflx SelTimer) \<noteq> SelDone"
    "\<forall>m e. fst (nl_WriteFrame reliable (ss_ctrl (sess setup_world)) FtObservedAddrQuery m e) = None" and "trace setup_world = []"
    by (simp_all add: setup_world_def start_sworld_def new_session_def demo_srflx_def reliable_def)
  with srflx_timeout_two_readers [OF run] run show ?thesis by auto
qed


definition dial_world :: "(script, ring_view) sworld" where
  "dial_world = setup_world\<lparr>env := idle_script\<lparr>sc_dials := [Inl DeadlineExceeded, Inr 8], sc_opens := [Inr 9],
     sc_frames := [frame_of FtHelloAck []]\<rparr>\<rparr>"

theorem dial_relay_consistent_witness:
  "\<exists>s w'. run_state (dial_relay scripted scripted_orp demo_os ascii_only id demo_flags) dial_world = (Inr (s, None, [''t1'']), w')
    \<and> ss_dialer s = Some TCPDialer \<and> (\<exists>t. EvUDPBind (Some t) \<in> set (trace w') \<and> EvUDPClose t \<in> set (trace w'))"
proof -
  obtain s w' where run: "run_state (dial_relay scripted scripted_orp demo_os ascii_only id demo_flags) dial_world = (Inr (s, None, [''t1'']), w')"
    by (simp add: dial_relay_def dial_quic_def endpoints_def DialAnyHappy_def DialWithDialer_def dial_world_def setup_run_defs
        TrimSpace_def is_ascii_def space_char_def)
  from dial_relay_consistent [OF run] run show ?thesis by (auto simp: demo_flags_def)
qed



end
