(* ===== verification/ResumableInv.thy ===== *)
theory ResumableInv
  imports Resumable
begin

text \<open>
  What holds of \<open>ResumableStream\<close> in every interleaving: the discipline of its wake-up
  channels and the accounting of \<open>Write\<close>, both as invariants of the step relation,
  and the execution in which a write that overlaps a resume is lost.
\<close>

section \<open>The channel discipline\<close>

text \<open>
  The channel a pending \<open>SwapInner\<close> still has to close, and the channel a reader or
  writer took along when it read the wrapper.
\<close>

fun swap_chan :: "pc \<Rightarrow> chan option" where
  "swap_chan (SwapClose r old) = r"
| "swap_chan _ = None"

fun snap :: "pc \<Rightarrow> chan option option" where
  "snap (ReadInner n st r) = Some r"
| "snap (ReadPark n r e) = Some r"
| "snap (WriteInner p k st r) = Some r"
| "snap (WriteGot p k n r e) = Some r"
| "snap (WritePark p k r e) = Some r"
| "snap _ = None"

definition pending_close :: "'s conc \<Rightarrow> chan \<Rightarrow> bool" where
  "pending_close c x = (\<exists>t. swap_chan (threads c t) = Some x)"

definition wakes :: "'s conc \<Rightarrow> chan \<Rightarrow> bool" where
  "wakes c x = (x \<in> chans_closed c \<or> rs_resumeReady (wrapper c) = Some x \<and> \<not> rs_abandoned (wrapper c)
     \<or> pending_close c x)"

definition chan_inv :: "'s conc \<Rightarrow> bool" where
  "chan_inv c \<longleftrightarrow> \<not> panicked c \<and> (\<forall>x \<in> chans_closed c. x < next_chan c) \<and>
     (\<forall>x. rs_resumeReady (wrapper c) = Some x \<longrightarrow>
        x < next_chan c \<and> x \<notin> chans_closed c \<and> \<not> pending_close c x) \<and>
     (\<not> rs_abandoned (wrapper c) \<longrightarrow> rs_resumeReady (wrapper c) \<noteq> None) \<and>
     (\<forall>t x. swap_chan (threads c t) = Some x \<longrightarrow>
        x < next_chan c \<and> x \<notin> chans_closed c \<and> (\<forall>t'. swap_chan (threads c t') = Some x \<longrightarrow> t' = t)) \<and>
     (\<forall>t r. snap (threads c t) = Some r \<longrightarrow> (\<exists>x. r = Some x \<and> wakes c x))"

lemma chan_invI:
  assumes "\<not> panicked c" and "\<And>x. x \<in> chans_closed c \<Longrightarrow> x < next_chan c"
    and "\<And>x. rs_resumeReady (wrapper c) = Some x \<Longrightarrow>
      x < next_chan c \<and> x \<notin> chans_closed c \<and> \<not> pending_close c x"
    and "\<not> rs_abandoned (wrapper c) \<Longrightarrow> rs_resumeReady (wrapper c) \<noteq> None"
    and "\<And>t x. swap_chan (threads c t) = Some x \<Longrightarrow> x < next_chan c \<and> x \<notin> chans_closed c"
    and "\<And>t t' x. swap_chan (threads c t) = Some x \<Longrightarrow> swap_chan (threads c t') = Some x \<Longrightarrow> t' = t"
    and "\<And>t r. snap (threads c t) = Some r \<Longrightarrow> \<exists>x. r = Some x \<and> wakes c x"
  shows "chan_inv c"
  using assms unfolding chan_inv_def by blast

lemma chan_invD:
  assumes "chan_inv c"
  shows "\<not> panicked c" and "x \<in> chans_closed c \<Longrightarrow> x < next_chan c"
    and "rs_resumeReady (wrapper c) = Some x \<Longrightarrow> x < next_chan c"
    and "rs_resumeReady (wrapper c) = Some x \<Longrightarrow> x \<notin> chans_closed c"
    and "rs_resumeReady (wrapper c) = Some x \<Longrightarrow> \<not> pending_close c x"
    and "\<not> rs_abandoned (wrapper c) \<Longrightarrow> rs_resumeReady (wrapper c) \<noteq> None"
    and "swap_chan (threads c t) = Some x \<Longrightarrow> x < next_chan c"
    and "swap_chan (threads c t) = Some x \<Longrightarrow> x \<notin> chans_closed c"
    and "swap_chan (threads c t) = Some x \<Longrightarrow> swap_chan (threads c t') = Some x \<Longrightarrow> t' = t"
    and "snap (threads c t) = Some r \<Longrightarrow> \<exists>x. r = Some x \<and> wakes c x"
  using assms unfolding chan_inv_def by blast+

lemma chan_inv_new: "chan_inv (new_conc R i st)"
  by (rule chan_invI) (simp_all add: new_conc_def pending_close_def)

text \<open>A move that touches no channel.\<close>

lemma chan_inv_local:
  assumes "chan_inv c"
    and "threads c' = (threads c)(t := p)"
    and "rs_resumeReady (wrapper c') = rs_resumeReady (wrapper c)"
      "rs_abandoned (wrapper c') = rs_abandoned (wrapper c)"
      "chans_closed c' = chans_closed c" "next_chan c' = next_chan c" "panicked c' = panicked c"
    and "swap_chan (threads c t) = None" "swap_chan p = None"
    and "snap p = None \<or> snap p = snap (threads c t)
      \<or> snap p = Some (rs_resumeReady (wrapper c)) \<and> \<not> rs_abandoned (wrapper c)"
  shows "chan_inv c'"
proof -
  have sw: "swap_chan (threads c' u) = swap_chan (threads c u)" for u
    using assms(2,8,9) by simp
  then have pend: "pending_close c' x = pending_close c x" for x
    by (simp add: pending_close_def)
  have wk: "wakes c' x = wakes c x" for x
    using assms(3,4,5) by (simp add: wakes_def pend)
  have "\<exists>x. r = Some x \<and> wakes c x" if "snap (threads c' u) = Some r" for u r
  proof (cases "u = t")
    case True
    then have "snap p = Some r" using that assms(2) by simp
    then consider "snap (threads c t) = Some r"
      | "r = rs_resumeReady (wrapper c)" "\<not> rs_abandoned (wrapper c)"
      using assms(10) by auto
    then show ?thesis
    proof cases
      case 1
      then show ?thesis using assms(1) unfolding chan_inv_def by blast
    next
      case 2
      then obtain x where "r = Some x" using assms(1) unfolding chan_inv_def by blast
      then show ?thesis using 2 by (auto simp: wakes_def)
    qed
  next
    case False
    then show ?thesis using that assms(1,2) unfolding chan_inv_def by auto
  qed
  then show ?thesis
    using chan_invD [OF assms(1)] by (intro chan_invI) (simp_all add: sw pend wk assms(3-7))
qed

text \<open>The critical section of \<open>SwapInner\<close>, the closing of the old channel, and \<open>markAbandoned\<close>.\<close>

lemma chan_inv_swap:
  assumes "chan_inv c" and "threads c t = SwapTop st"
  shows "chan_inv (goto t (SwapClose (rs_resumeReady (wrapper c)) (rs_inner (wrapper c))) (swap_locked st c))"
    (is "chan_inv ?c'")
proof -
  note D = chan_invD [OF assms(1)]
  have sw: "swap_chan (threads ?c' u) = (if u = t then rs_resumeReady (wrapper c) else swap_chan (threads c u))" for u
    by (simp add: goto_def swap_locked_def)
  have t: "swap_chan (threads c t) = None" using assms(2) by simp
  have pend: "pending_close ?c' x \<longleftrightarrow> pending_close c x \<or> rs_resumeReady (wrapper c) = Some x" for x
    unfolding pending_close_def sw using t by (metis option.distinct(1))
  have fields: "chans_closed ?c' = chans_closed c" "next_chan ?c' = Suc (next_chan c)"
      "panicked ?c' = panicked c" "rs_resumeReady (wrapper ?c') = Some (next_chan c)"
      "rs_abandoned (wrapper ?c') = rs_abandoned (wrapper c)"
    by (simp_all add: goto_def swap_locked_def)
  have wk: "wakes ?c' x" if "wakes c x" for x
    using that by (auto simp: wakes_def pend fields)
  show ?thesis
  proof (rule chan_invI, goal_cases)
    case (3 x)
    moreover have "\<not> pending_close c (next_chan c)" using D(7) by (auto simp: pending_close_def)
    ultimately show ?case using D(2,3) [of "next_chan c"] by (auto simp: fields pend)
  next
    case (5 u x)
    then show ?case using D(3,4,7,8) by (auto simp: fields sw less_Suc_eq split: if_splits)
  next
    case (6 u v x)
    then show ?case using D(5,9) by (auto simp: sw pending_close_def split: if_splits)
  next
    case (7 u r)
    then have "snap (threads c u) = Some r"
      by (cases "u = t") (simp_all add: goto_def swap_locked_def)
    then show ?case using D(10) wk by blast
  qed (use D(1,2) in \<open>auto simp: fields less_Suc_eq\<close>)
qed

lemma chan_inv_close:
  assumes "chan_inv c" and "threads c t = SwapClose r old"
  shows "chan_inv (goto t (SwapCancel old) (close_chan r c))" (is "chan_inv ?c'")
proof (cases r)
  case None
  then show ?thesis
    using assms by (auto intro!: chan_inv_local [OF assms(1), of _ t "SwapCancel old"]
        simp: goto_def close_chan_def)
next
  case (Some x)
  note D = chan_invD [OF assms(1)]
  have t: "swap_chan (threads c t) = Some x" using assms(2) Some by simp
  have x: "x < next_chan c" "x \<notin> chans_closed c" using D(7,8) [OF t] .
  have ready: "rs_resumeReady (wrapper c) \<noteq> Some x" using D(5) t by (auto simp: pending_close_def)
  have fields: "chans_closed ?c' = insert x (chans_closed c)" "next_chan ?c' = next_chan c"
      "panicked ?c' = panicked c" "wrapper ?c' = wrapper c"
    and thr: "threads ?c' = (threads c)(t := SwapCancel old)"
    using x Some by (simp_all add: goto_def close_chan_def)
  have sw: "swap_chan (threads ?c' u) = (if u = t then None else swap_chan (threads c u))" for u
    by (simp add: thr)
  have pend: "pending_close ?c' y \<longleftrightarrow> pending_close c y \<and> y \<noteq> x" for y
  proof (cases "y = x")
    case True
    then show ?thesis unfolding pending_close_def sw using D(9) [OF t] by auto
  next
    case False
    then show ?thesis unfolding pending_close_def sw using t by (metis option.distinct(1) option.inject)
  qed
  have wk: "wakes ?c' y" if "wakes c y" for y
    using that by (auto simp: wakes_def pend fields)
  show ?thesis
  proof (rule chan_invI, goal_cases)
    case (3 y)
    then have "rs_resumeReady (wrapper c) = Some y" by (simp add: fields)
    then show ?case using D(3,4,5) [of y] ready by (auto simp: fields pend)
  next
    case (5 u y)
    then have u: "swap_chan (threads c u) = Some y" "u \<noteq> t" by (auto simp: sw split: if_splits)
    then have "y \<noteq> x" using D(9) [OF t, of u] by auto
    then show ?case using D(7,8) [OF u(1)] by (simp add: fields)
  next
    case (6 u v y)
    then have "swap_chan (threads c u) = Some y" "swap_chan (threads c v) = Some y"
      by (auto simp: sw split: if_splits)
    then show ?case by (rule D(9))
  next
    case (7 u q)
    then have "snap (threads c u) = Some q" by (cases "u = t") (simp_all add: thr)
    then show ?case using D(10) wk by blast
  next
    case (2 y)
    then show ?case using D(2) [of y] x(1) by (auto simp: fields)
  qed (use D(1,6) in \<open>simp_all add: fields\<close>)
qed

lemma chan_inv_abandon:
  assumes "chan_inv c" and "swap_chan (threads c t) = None" "swap_chan p = None" "snap p = None"
  shows "chan_inv (goto t p (markAbandoned c))" (is "chan_inv ?c'")
proof (cases "rs_abandoned (wrapper c)")
  case True
  then show ?thesis
    using assms by (auto intro!: chan_inv_local [OF assms(1), of _ t p] simp: goto_def markAbandoned_def)
next
  case False
  note D = chan_invD [OF assms(1)]
  obtain x where ready: "rs_resumeReady (wrapper c) = Some x" using D(6) False by auto
  have x: "x < next_chan c" "x \<notin> chans_closed c" "\<not> pending_close c x"
    using D(3,4,5) [OF ready] .
  have fields: "chans_closed ?c' = insert x (chans_closed c)" "next_chan ?c' = next_chan c"
      "panicked ?c' = panicked c" "rs_resumeReady (wrapper ?c') = None" "rs_abandoned (wrapper ?c')"
    and thr: "threads ?c' = (threads c)(t := p)"
    using x ready False by (simp_all add: goto_def markAbandoned_def close_chan_def)
  have sw: "swap_chan (threads ?c' u) = swap_chan (threads c u)" for u
    using assms(2,3) by (simp add: thr)
  have pend: "pending_close ?c' y = pending_close c y" for y by (simp add: pending_close_def sw)
  have wk: "wakes ?c' y" if "wakes c y" for y
    using that ready by (auto simp: wakes_def pend fields)
  show ?thesis
  proof (rule chan_invI, goal_cases)
    case (5 u y)
    then have u: "swap_chan (threads c u) = Some y" by (simp add: sw)
    then have "y \<noteq> x" using x(3) by (auto simp: pending_close_def)
    then show ?case using D(7,8) [OF u] by (simp add: fields)
  next
    case (6 u v y)
    then have "swap_chan (threads c u) = Some y" "swap_chan (threads c v) = Some y"
      by (simp_all add: sw)
    then show ?case by (rule D(9))
  next
    case (7 u q)
    then have "snap (threads c u) = Some q" using assms(4) by (cases "u = t") (simp_all add: thr)
    then show ?case using D(10) wk by blast
  next
    case (2 y)
    then show ?case using D(2) [of y] x(1) by (auto simp: fields)
  qed (use D(1) fields in simp_all)
qed

lemma chan_inv_goto:
  assumes "chan_inv c"
    and "threads c1 = threads c" "rs_resumeReady (wrapper c1) = rs_resumeReady (wrapper c)"
      "rs_abandoned (wrapper c1) = rs_abandoned (wrapper c)" "chans_closed c1 = chans_closed c"
      "next_chan c1 = next_chan c" "panicked c1 = panicked c"
    and "swap_chan (threads c t) = None" "swap_chan p = None"
    and "snap p = None \<or> snap p = snap (threads c t)
      \<or> snap p = Some (rs_resumeReady (wrapper c)) \<and> \<not> rs_abandoned (wrapper c)"
  shows "chan_inv (goto t p c1)"
  by (rule chan_inv_local [OF assms(1), of _ t p]) (use assms in \<open>simp_all add: goto_def\<close>)

lemma swap_chan_after [simp]:
  "swap_chan (after_read n r b err) = None" "swap_chan (after_write p k r err) = None"
  by (auto simp: after_read_def after_write_def split: option.splits)

lemma snap_after:
  "snap (after_read n r b err) = None \<or> snap (after_read n r b err) = Some r"
  "snap (after_write p k r err) = None \<or> snap (after_write p k r err) = Some r"
  by (auto simp: after_read_def after_write_def split: option.splits)

lemma chan_inv_step_pc:
  assumes "chan_inv c" and "threads c t = p" and "step_pc R t p ch c = Some c'"
  shows "chan_inv c'"
proof -
  note local = chan_inv_goto [OF assms(1)]
  show ?thesis
  proof (cases p)
    case (ReadInner n st r)
    then obtain b err where "c' = goto t (after_read n r b err) c"
      using assms by (auto split: choice.splits if_splits)
    then show ?thesis
      using assms ReadInner snap_after(1) [of n r b err] by (auto intro!: local)
  next
    case (WriteGot q k n r err)
    then obtain c1 where "c' = goto t (after_write q (k + n) r err) c1" "threads c1 = threads c"
        "rs_resumeReady (wrapper c1) = rs_resumeReady (wrapper c)"
        "rs_abandoned (wrapper c1) = rs_abandoned (wrapper c)" "chans_closed c1 = chans_closed c"
        "next_chan c1 = next_chan c" "panicked c1 = panicked c"
      using assms by (auto split: if_splits)
    then show ?thesis
      using assms WriteGot snap_after(2) [of q "k + n" r err] by (auto intro!: local)
  next
    case (SwapTop st)
    then show ?thesis using assms chan_inv_swap [OF assms(1), of t st] by (auto split: if_splits)
  next
    case (SwapClose r old)
    then show ?thesis using assms chan_inv_close [OF assms(1), of t r old] by (auto split: if_splits)
  next
    case (ResumeGap ack st)
    then show ?thesis using assms by (auto split: if_splits sum.splits intro!: local)
  next
    case (ResumeWrite gap st)
    then show ?thesis
      using assms by (auto split: if_splits choice.splits option.splits intro!: local)
  qed (use assms in \<open>auto split: if_splits choice.splits intro!: local chan_inv_abandon [OF assms(1)]\<close>)
qed

lemma chan_inv_call:
  assumes "chan_inv c" "at_rest (threads c t)" "entry p"
  shows "chan_inv (begin_call t p c)"
proof (rule chan_inv_local [OF assms(1), of _ t p])
  show "swap_chan (threads c t) = None" using assms(2) by (cases "threads c t") simp_all
  show "swap_chan p = None" using assms(3) by (cases p) simp_all
  have "snap p = None" using assms(3) by (cases p) simp_all
  then show "snap p = None \<or> snap p = snap (threads c t)
      \<or> snap p = Some (rs_resumeReady (wrapper c)) \<and> \<not> rs_abandoned (wrapper c)" ..
qed (simp_all add: begin_call_def goto_def)

lemma reachable_chan_inv: "conc_reachable R i st c \<Longrightarrow> chan_inv c"
proof (induction rule: conc_reachable.induct)
  case conc_new
  show ?case by (rule chan_inv_new)
next
  case (conc_call c t p)
  then show ?case by (simp add: chan_inv_call)
next
  case (conc_step c t ch c')
  then show ?case using chan_inv_step_pc [OF conc_step.IH refl] by (simp add: step_def)
qed

section \<open>The accounting of a write\<close>

text \<open>
  What a thread inside \<open>Write\<close> has had accepted by inner streams and has handed to
  \<open>OnWrite\<close>, at each point of the code.
\<close>

fun write_ok :: "pc \<Rightarrow> byte list \<Rightarrow> byte list \<Rightarrow> bool" where
  "write_ok (WriteTop p k) a l = (k \<le> length p \<and> a = take k p \<and> l = take k p)"
| "write_ok (WriteInner p k st r) a l = (k \<le> length p \<and> a = take k p \<and> l = take k p)"
| "write_ok (WriteGot p k n r e) a l = (k + n \<le> length p \<and> a = take (k + n) p \<and> l = take k p)"
| "write_ok (WritePark p k r e) a l = (k \<le> length p \<and> a = take k p \<and> l = take k p)"
| "write_ok (WriteRet p k e) a l = (k \<le> length p \<and> a = take k p \<and> l = take k p \<and> (e = None \<longrightarrow> k = length p))"
| "write_ok _ a l = True"

definition write_inv :: "'s conc \<Rightarrow> bool" where
  "write_inv c = (\<forall>t. write_ok (threads c t) (accepted c t) (logged c t))"

lemma write_ok_after_write:
  "k \<le> length p \<Longrightarrow> write_ok (after_write p k r err) (take k p) (take k p)"
  by (auto simp: after_write_def split: option.splits)

lemma write_ok_after_read: "write_ok (after_read n r b err) a l"
  by (auto simp: after_read_def split: option.splits)

lemma take_take_drop: "take k p @ take n (drop k p) = take (k + n) p"
  by (simp add: take_add)

lemma markAbandoned_fields [simp]:
  "threads (markAbandoned c) = threads c" "accepted (markAbandoned c) = accepted c"
  "logged (markAbandoned c) = logged c"
  by (simp_all add: markAbandoned_def close_chan_def split: option.splits)

lemma close_chan_fields [simp]:
  "threads (close_chan r c) = threads c" "accepted (close_chan r c) = accepted c"
  "logged (close_chan r c) = logged c"
  by (simp_all add: close_chan_def split: option.splits)

lemma goto_fields [simp]:
  "threads (goto t p c) = (threads c)(t := p)" "accepted (goto t p c) = accepted c"
  "logged (goto t p c) = logged c" "wrapper (goto t p c) = wrapper c"
  by (simp_all add: goto_def)

lemma swap_locked_fields [simp]:
  "threads (swap_locked st c) = threads c" "accepted (swap_locked st c) = accepted c"
  "logged (swap_locked st c) = logged c"
  by (simp_all add: swap_locked_def)

text \<open>A step changes the program counter and the accounts of its own thread only.\<close>

lemma step_pc_others:
  assumes "step_pc R t p ch c = Some c'" and "u \<noteq> t"
  shows "threads c' u = threads c u" and "accepted c' u = accepted c u" and "logged c' u = logged c u"
  using assms
  by (cases p; auto split: if_splits choice.splits option.splits sum.splits)+

lemma step_pc_own:
  assumes "step_pc R t p ch c = Some c'" and "write_ok p (accepted c t) (logged c t)"
  shows "write_ok (threads c' t) (accepted c' t) (logged c' t)"
proof (cases p)
  case (WriteInner q k st r)
  then show ?thesis using assms by (auto simp: take_take_drop split: choice.splits if_splits)
next
  case (WriteGot q k n r err)
  then show ?thesis
    using assms write_ok_after_write [of "k + n" q r err]
    by (auto simp: take_take_drop split: if_splits)
next
  case (ReadInner n st r)
  then show ?thesis using assms by (auto simp: write_ok_after_read split: choice.splits if_splits)
qed (use assms in \<open>auto split: if_splits choice.splits option.splits sum.splits\<close>)

lemma reachable_write_inv: "conc_reachable R i st c \<Longrightarrow> write_inv c"
proof (induction rule: conc_reachable.induct)
  case conc_new
  show ?case by (simp add: write_inv_def new_conc_def)
next
  case (conc_call c t p)
  have "write_ok p [] []" using conc_call(3) by (cases p) auto
  then show ?case using conc_call by (simp add: write_inv_def begin_call_def)
next
  case (conc_step c t ch c')
  have st: "step_pc R t (threads c t) ch c = Some c'" using conc_step(2) by (simp add: step_def)
  have "write_ok (threads c' u) (accepted c' u) (logged c' u)" for u
  proof (cases "u = t")
    case True
    then show ?thesis using step_pc_own [OF st] conc_step(3) by (simp add: write_inv_def)
  next
    case False
    then show ?thesis using step_pc_others [OF st False] conc_step(3) by (simp add: write_inv_def)
  qed
  then show ?case by (simp add: write_inv_def)
qed

section \<open>Properties\<close>

text \<open>
  C7. No interleaving of \<open>Read\<close>, \<open>Write\<close>, \<open>SwapInner\<close>, \<open>Close\<close>, \<open>markAbandoned\<close>, \<open>Resume\<close>
  and checkpoint calls closes a channel twice or waits on a missing one: the wrapper never
  panics, and a reader or writer that is parked waits on a channel that is already
  closed, or that a running \<open>SwapInner\<close> is about to close, or that is the current
  one of a stream that is not abandoned, so the next \<open>SwapInner\<close> or
  \<open>markAbandoned\<close> closes it.
\<close>

theorem parked_is_woken:
  assumes "conc_reachable R i st c" and "threads c t = ReadPark n ready e \<or> threads c t = WritePark p k ready e"
  shows "\<not> panicked c \<and> (\<exists>x. ready = Some x \<and> (x \<in> chans_closed c \<or> pending_close c x
    \<or> rs_resumeReady (wrapper c) = Some x \<and> \<not> rs_abandoned (wrapper c)))"
proof -
  have inv: "chan_inv c" using assms(1) by (rule reachable_chan_inv)
  have "snap (threads c t) = Some ready" using assms(2) by auto
  then obtain x where "ready = Some x" "wakes c x" using chan_invD(10) [OF inv] by blast
  then show ?thesis using chan_invD(1) [OF inv] by (auto simp: wakes_def)
qed

lemma exec_reachable_new: "exec R ms (new_conc R i st) = Some c \<Longrightarrow> conc_reachable R i st c"
  using exec_reachable conc_new by blast

definition parked_moves :: "move list" where
  "parked_moves = [Call 0 (ReadTop 4), Step 0 Go, Step 0 (InnerRead [] (Some NetTimeout))]"

lemma parked_run:
  "\<exists>c. exec (list_ring 8) parked_moves (new_conc (list_ring 8) 1 5) = Some c
     \<and> threads c 0 = ReadPark 4 (Some 0) NetTimeout"
  by (simp add: parked_moves_def step_def new_conc_def begin_call_def goto_def after_read_def)

theorem parked_is_woken_witness:
  "\<exists>c. conc_reachable (list_ring 8) 1 5 c \<and> threads c 0 = ReadPark 4 (Some 0) NetTimeout \<and> \<not> panicked c"
proof -
  obtain c where c: "exec (list_ring 8) parked_moves (new_conc (list_ring 8) 1 5) = Some c"
      "threads c 0 = ReadPark 4 (Some 0) NetTimeout"
    using parked_run by blast
  then show ?thesis using parked_is_woken [OF exec_reachable_new [OF c(1)] disjI1 [OF c(2)]]
    exec_reachable_new [OF c(1)] by blast
qed

text \<open>
  Abandoning a stream releases everybody: once the wrapper is abandoned and no
  \<open>SwapInner\<close> is between its critical section and its close, every parked reader
  and writer can leave its wait at once, and its next step returns \<open>ErrStreamLost\<close>.
\<close>

theorem abandon_releases:
  assumes "conc_reachable R i st c" and "rs_abandoned (wrapper c)"
    and "\<And>u r old. threads c u \<noteq> SwapClose r old"
    and "threads c t = ReadPark n ready e"
  shows "\<exists>c1 c2. step R t Woken c = Some c1 \<and> step R t Go c1 = Some c2
    \<and> threads c2 t = ReadRet [] (Some StreamLost)"
proof -
  have inv: "chan_inv c" using assms(1) by (rule reachable_chan_inv)
  have "swap_chan (threads c u) = None" for u
  proof (cases "threads c u")
    case (SwapClose r old)
    then show ?thesis using assms(3) by blast
  qed simp_all
  then have "\<not> pending_close c x" for x by (simp add: pending_close_def)
  moreover obtain x where "ready = Some x" "wakes c x"
    using chan_invD(10) [OF inv, of t ready] assms(4) by auto
  ultimately have "woken c ready" using assms(2) by (simp add: wakes_def woken_def)
  then show ?thesis using assms(2,4) by (simp add: step_def)
qed

lemma abandoned_run:
  "\<exists>c. exec (list_ring 8) (parked_moves @ [Call 1 CloseTop, Step 1 Go, Step 1 Go]) (new_conc (list_ring 8) 1 5) = Some c
     \<and> rs_abandoned (wrapper c) \<and> (\<forall>u r old. threads c u \<noteq> SwapClose r old)
     \<and> threads c 0 = ReadPark 4 (Some 0) NetTimeout"
  by (simp add: parked_moves_def step_def new_conc_def begin_call_def goto_def after_read_def
      markAbandoned_def close_chan_def)

theorem abandon_releases_witness:
  "\<exists>c c1 c2. conc_reachable (list_ring 8) 1 5 c \<and> step (list_ring 8) 0 Woken c = Some c1
     \<and> step (list_ring 8) 0 Go c1 = Some c2 \<and> threads c2 0 = ReadRet [] (Some StreamLost)"
proof -
  obtain c where c: "conc_reachable (list_ring 8) 1 5 c" "rs_abandoned (wrapper c)"
      "\<And>u r old. threads c u \<noteq> SwapClose r old" "threads c 0 = ReadPark 4 (Some 0) NetTimeout"
    using abandoned_run exec_reachable_new by blast
  then show ?thesis using abandon_releases [OF c] by blast
qed

text \<open>
  C8. \<open>Write\<close> accounts for every byte, across any number of replaced inner streams:
  when it returns a count, exactly that prefix of its argument was accepted by
  inner streams and exactly that prefix was recorded for retransmission, and it
  returns without an error only if the whole argument was.
\<close>

theorem Write_accounts:
  assumes "conc_reachable R i st c" and "threads c t = WriteRet p k err"
  shows "k \<le> length p \<and> accepted c t = take k p \<and> logged c t = take k p \<and> (err = None \<longrightarrow> k = length p)"
  using reachable_write_inv [OF assms(1)] assms(2) unfolding write_inv_def by (metis write_ok.simps(5))

definition write_moves :: "move list" where
  "write_moves = [Call 0 (WriteTop [1, 2, 3] 0), Step 0 Go, Step 0 (InnerWrite 1 (Some NetClosed)), Step 0 Go,
     Call 1 (SwapTop 6), Step 1 Go, Step 1 Go, Step 0 Woken, Step 0 Go, Step 0 (InnerWrite 2 None), Step 0 Go]"

lemma write_run:
  "\<exists>c. exec (list_ring 8) write_moves (new_conc (list_ring 8) 1 5) = Some c
     \<and> threads c 0 = WriteRet [1, 2, 3] 3 None \<and> wire c 5 = [1] \<and> wire c 6 = [2, 3]"
  by (simp add: write_moves_def step_def new_conc_def begin_call_def goto_def after_write_def
      swap_locked_def close_chan_def woken_def list_ring_def)

theorem Write_accounts_witness:
  "\<exists>c. wire c 5 = [1] \<and> wire c 6 = [2, 3] \<and> conc_reachable (list_ring 8) 1 5 c \<and> logged c 0 = [1, 2, 3]"
proof -
  obtain c where c: "exec (list_ring 8) write_moves (new_conc (list_ring 8) 1 5) = Some c"
      "threads c 0 = WriteRet [1, 2, 3] 3 None" "wire c 5 = [1]" "wire c 6 = [2, 3]"
    using write_run by blast
  then show ?thesis
    using Write_accounts [OF exec_reachable_new [OF c(1)] c(2)] exec_reachable_new [OF c(1)] by auto
qed


end
