(* ===== verification/WrapperSim.thy ===== *)
theory WrapperSim
  imports Session ResumableInv
begin

text \<open>
  The session's view of a stream wrapper refines the concurrent model of \<open>Resumable\<close>.  In
  a session the methods of a wrapper are single changes of the store; here each of
  them is matched by an execution of the threads of the concurrent model that ends in
  a state with the same wrapper.  Reads and writes that are in flight when the change
  happens stay in flight.
\<close>

section \<open>Abstraction\<close>

text \<open>The concurrent state shows the given wrapper; channels are matched by being there.\<close>

definition shows_as :: "'s conc \<Rightarrow> 's rstream \<Rightarrow> bool" where
  "shows_as c rs \<longleftrightarrow> rs_ID (wrapper c) = rs_ID rs \<and> rs_inner (wrapper c) = rs_inner rs \<and> rs_state (wrapper c) = rs_state rs
     \<and> rs_abandoned (wrapper c) = rs_abandoned rs \<and> (rs_resumeReady (wrapper c) = None \<longleftrightarrow> rs_resumeReady rs = None)"

text \<open>A call of \<open>Read\<close> or \<open>Write\<close>, and that a thread is inside it, at the inner stream.\<close>

fun io_call :: "pc \<Rightarrow> bool" where
  "io_call (ReadTop n) = True"
| "io_call (WriteTop p k) = (k = 0 \<and> p \<noteq> [])"
| "io_call _ = False"

fun inflight :: "pc \<Rightarrow> pc \<Rightarrow> bool" where
  "inflight (ReadTop n) (ReadInner m st r) = (m = n)"
| "inflight (WriteTop p k) (WriteInner q j st r) = (q = p \<and> j = k)"
| "inflight _ _ = False"

definition crowd :: "pc list \<Rightarrow> 's conc \<Rightarrow> bool" where
  "crowd calls c \<longleftrightarrow> (\<forall>j. if j < length calls then inflight (calls ! j) (threads c j) else at_rest (threads c j))"

text \<open>
  A wrapper is simulated if, whatever reads and writes are in flight, it is what a
  reachable state of the concurrent model shows.
\<close>

definition simulated :: "'s resume_lib \<Rightarrow> 's rstream \<Rightarrow> bool" where
  "simulated R rs \<longleftrightarrow> (\<exists>st. \<forall>calls. list_all io_call calls \<longrightarrow>
     (\<exists>c. conc_reachable R (rs_ID rs) st c \<and> shows_as c rs \<and> crowd calls c))"

lemma simulatedD:
  assumes "simulated R rs"
  obtains st where "\<And>calls. list_all io_call calls \<Longrightarrow> \<exists>c. conc_reachable R (rs_ID rs) st c \<and> shows_as c rs \<and> crowd calls c"
  using assms unfolding simulated_def by blast

section \<open>The methods of a wrapper\<close>

text \<open>Moves of the first idle thread.\<close>

lemma crowd_next: "crowd calls c \<Longrightarrow> at_rest (threads c (length calls))"
  by (simp add: crowd_def)

lemma simulated_moves:
  assumes "simulated R rs" and "rs_ID rs' = rs_ID rs"
    and "\<And>c t. shows_as c rs \<Longrightarrow> at_rest (threads c t) \<Longrightarrow> \<exists>c'. exec R (moves t) c = Some c' \<and> shows_as c' rs'
      \<and> at_rest (threads c' t) \<and> (\<forall>u. u \<noteq> t \<longrightarrow> threads c' u = threads c u)"
  shows "simulated R rs'"
  using assms(1)
proof (rule simulatedD)
  fix st assume sim: "\<And>calls. list_all io_call calls \<Longrightarrow> \<exists>c. conc_reachable R (rs_ID rs) st c \<and> shows_as c rs \<and> crowd calls c"
  have "\<exists>c. conc_reachable R (rs_ID rs') st c \<and> shows_as c rs' \<and> crowd calls c" if io: "list_all io_call calls" for calls
  proof -
    obtain c where c: "conc_reachable R (rs_ID rs) st c" "shows_as c rs" "crowd calls c" using sim [OF io] by blast
    obtain c' where c': "exec R (moves (length calls)) c = Some c'" "shows_as c' rs'" "at_rest (threads c' (length calls))"
      "\<forall>u. u \<noteq> length calls \<longrightarrow> threads c' u = threads c u"
      using assms(3) [OF c(2) crowd_next [OF c(3)]] by blast
    have "crowd calls c'" using c(3) c'(3,4) unfolding crowd_def by (metis less_irrefl)
    then show ?thesis using exec_reachable [OF c'(1) c(1)] c'(2) assms(2) by auto
  qed
  then show ?thesis unfolding simulated_def by blast
qed

lemmas move_simps = step_def begin_call_def goto_def shows_as_def

lemma simulated_swap:
  assumes "simulated R rs"
  shows "simulated R (rs\<lparr>rs_inner := st, rs_resumeReady := Some ch\<rparr>)"
  using assms
  by (rule simulated_moves [where moves = "\<lambda>t. [Call t (SwapTop st), Step t Go, Step t Go, Step t Go]"])
    (auto simp: move_simps swap_locked_def close_chan_def split: option.split)

lemma simulated_abandon:
  assumes "simulated R rs" and "\<not> rs_abandoned rs"
  shows "simulated R (rs\<lparr>rs_abandoned := True, rs_resumeReady := None\<rparr>)"
  using assms(1)
  by (rule simulated_moves [where moves = "\<lambda>t. [Call t AbandonTop, Step t Go]"])
    (use assms(2) in \<open>auto simp: move_simps markAbandoned_def close_chan_def split: option.split\<close>)

lemma simulated_checkpoint:
  assumes "simulated R rs"
  shows "simulated R (rs\<lparr>rs_state := rl_OnCheckpoint R ack (rs_state rs)\<rparr>)"
  using assms
  by (rule simulated_moves [where moves = "\<lambda>t. [Call t (CheckpointTop ack), Step t Go]"]) (auto simp: move_simps)

text \<open>A read or write that was in flight completes, also when the wrapper has been abandoned since.\<close>

lemma simulated_completes:
  assumes "simulated R rs" and "io_call p" and "rs_ID rs' = rs_ID rs"
    and "\<And>c t. shows_as c rs \<Longrightarrow> inflight p (threads c t) \<Longrightarrow> \<exists>c'. exec R (moves t) c = Some c' \<and> shows_as c' rs'
      \<and> at_rest (threads c' t) \<and> (\<forall>u. u \<noteq> t \<longrightarrow> threads c' u = threads c u)"
  shows "simulated R rs'"
  using assms(1)
proof (rule simulatedD)
  fix st assume sim: "\<And>calls. list_all io_call calls \<Longrightarrow> \<exists>c. conc_reachable R (rs_ID rs) st c \<and> shows_as c rs \<and> crowd calls c"
  have "\<exists>c. conc_reachable R (rs_ID rs') st c \<and> shows_as c rs' \<and> crowd calls c" if io: "list_all io_call calls" for calls
  proof -
    obtain c where c: "conc_reachable R (rs_ID rs) st c" "shows_as c rs" "crowd (calls @ [p]) c"
      using sim [of "calls @ [p]"] io assms(2) by auto
    have "inflight p (threads c (length calls))" using c(3) by (auto simp: crowd_def dest!: spec [of _ "length calls"])
    then obtain c' where c': "exec R (moves (length calls)) c = Some c'" "shows_as c' rs'" "at_rest (threads c' (length calls))"
      "\<forall>u. u \<noteq> length calls \<longrightarrow> threads c' u = threads c u"
      using assms(4) [OF c(2)] by blast
    have "if j < length calls then inflight (calls ! j) (threads c' j) else at_rest (threads c' j)" for j
      using c(3) [unfolded crowd_def, rule_format, of j] c'(3,4)
      by (cases "j = length calls") (auto simp: nth_append split: if_splits)
    then have "crowd calls c'" by (simp add: crowd_def)
    then show ?thesis using exec_reachable [OF c'(1) c(1)] c'(2) assms(3) by auto
  qed
  then show ?thesis unfolding simulated_def by blast
qed

lemma simulated_read:
  assumes "simulated R rs" and "0 < n"
  shows "simulated R (rs\<lparr>rs_state := rl_OnRead R n (rs_state rs)\<rparr>)"
  using assms(1)
proof (rule simulated_completes [where p = "ReadTop n" and moves = "\<lambda>t. [Step t (InnerRead (replicate n 0) None), Step t Go]"])
  fix c :: "'a conc" and t
  assume "shows_as c rs" "inflight (ReadTop n) (threads c t)"
  moreover obtain st r where "threads c t = ReadInner n st r"
    using calculation(2) by (cases "threads c t") auto
  ultimately show "\<exists>c'. exec R [Step t (InnerRead (replicate n 0) None), Step t Go] c = Some c'
      \<and> shows_as c' (rs\<lparr>rs_state := rl_OnRead R n (rs_state rs)\<rparr>) \<and> at_rest (threads c' t) \<and> (\<forall>u. u \<noteq> t \<longrightarrow> threads c' u = threads c u)"
    using assms(2) by (simp add: move_simps after_read_def)
qed simp_all

lemma simulated_write:
  assumes "simulated R rs" and "p \<noteq> []"
  shows "simulated R (rs\<lparr>rs_state := rl_OnWrite R p (rs_state rs)\<rparr>)"
  using assms(1)
proof (rule simulated_completes [where p = "WriteTop p 0" and moves = "\<lambda>t. [Step t (InnerWrite (length p) None), Step t Go]"])
  fix c :: "'a conc" and t
  assume "shows_as c rs" "inflight (WriteTop p 0) (threads c t)"
  moreover obtain st r where "threads c t = WriteInner p 0 st r"
    using calculation(2) by (cases "threads c t") auto
  ultimately show "\<exists>c'. exec R [Step t (InnerWrite (length p) None), Step t Go] c = Some c'
      \<and> shows_as c' (rs\<lparr>rs_state := rl_OnWrite R p (rs_state rs)\<rparr>) \<and> at_rest (threads c' t) \<and> (\<forall>u. u \<noteq> t \<longrightarrow> threads c' u = threads c u)"
    using assms(2) by (simp add: move_simps after_write_def)
qed (use assms(2) in simp_all)

text \<open>A new wrapper: the calls in flight have just started.\<close>

lemma simulated_new:
  "simulated R \<lparr>rs_ID = i, rs_inner = st, rs_state = rl_NewState R i, rs_resumeReady = Some ch, rs_abandoned = False\<rparr>"
  (is "simulated R ?rs")
proof -
  have "\<exists>c. conc_reachable R i st c \<and> shows_as c ?rs \<and> crowd calls c" if "list_all io_call calls" for calls
    using that
  proof (induction calls rule: rev_induct)
    case Nil
    show ?case
      using conc_new [of R i st] by (rule exI [of _ "new_conc R i st", OF conjI]) (simp add: shows_as_def crowd_def new_conc_def)
  next
    case (snoc p calls)
    then obtain c where c: "conc_reachable R i st c" "shows_as c ?rs" "crowd calls c" by auto
    let ?t = "length calls"
    have "\<exists>c'. exec R [Call ?t p, Step ?t Go] c = Some c' \<and> shows_as c' ?rs \<and> inflight p (threads c' ?t)
        \<and> (\<forall>u. u \<noteq> ?t \<longrightarrow> threads c' u = threads c u)"
      using snoc.prems c(2) crowd_next [OF c(3)] by (cases p) (auto simp: move_simps)
    then obtain c' where c': "exec R [Call ?t p, Step ?t Go] c = Some c'" "shows_as c' ?rs" "inflight p (threads c' ?t)"
      "\<forall>u. u \<noteq> ?t \<longrightarrow> threads c' u = threads c u" by blast
    have "if j < length (calls @ [p]) then inflight ((calls @ [p]) ! j) (threads c' j) else at_rest (threads c' j)" for j
      using c(3) [unfolded crowd_def, rule_format, of j] c'(3,4)
      by (cases "j = ?t") (auto simp: nth_append split: if_splits)
    then have "crowd (calls @ [p]) c'" by (simp add: crowd_def)
    then show ?case using exec_reachable [OF c'(1) c(1)] c'(2) by blast
  qed
  then show ?thesis by (auto simp: simulated_def)
qed

end
