(* ===== verification/Lifecycle.thy ===== *)
theory Lifecycle
  imports Agent WrapperSim
begin

text \<open>
  The session as a whole.  An activity is anything the goroutines of the agent do with
  a session: one call of its interface, a call with other activities at the points
  where it waits, or activities one after the other.  The locale \<open>live_session\<close> lists
  the few primitive changes to a session and its wrappers; a predicate they all keep is
  kept by every activity.  It is interpreted for the well-formedness of the state and
  for the refinement of an abstract table of streams.
\<close>

section \<open>Activities\<close>

definition quietly :: "('e, 's, 'a) sio \<Rightarrow> ('e, 's, unit) sio" where
  "quietly m = do { _ \<leftarrow> m; State_Monad.return () }"

text \<open>The bookkeeping of a read, a write or a checkpoint in the resume state of a wrapper.\<close>

definition touch :: "nat \<Rightarrow> ('s \<Rightarrow> 's) \<Rightarrow> ('e, 's, unit) sio" where
  "touch ref g = upd (\<lambda>w. case objs w ref of
       None \<Rightarrow> w
     | Some rs \<Rightarrow> w\<lparr>objs := (objs w)(ref \<mapsto> rs\<lparr>rs_state := g (rs_state rs)\<rparr>)\<rparr>)"

inductive activity ::
  "'e netlib \<Rightarrow> orp_lib \<Rightarrow> 's resume_lib \<Rightarrow> 'e fwdlib \<Rightarrow> 'e hostlib \<Rightarrow> ('e, 's, unit) sio \<Rightarrow> bool"
  for N :: "'e netlib" and L :: orp_lib and R :: "'s resume_lib" and F :: "'e fwdlib" and H :: "'e hostlib" where
  a_idle: "activity N L R F H (State_Monad.return ())"
| a_seq: "activity N L R F H m \<Longrightarrow> activity N L R F H m' \<Longrightarrow> activity N L R F H (State_Monad.bind m (\<lambda>_. m'))"
| a_outside: "activity N L R F H (upd (\<lambda>w. w\<lparr>env := f (env w)\<rparr>))"
| a_read: "0 < n \<Longrightarrow> activity N L R F H (touch ref (rl_OnRead R n))"
| a_write: "p \<noteq> [] \<Longrightarrow> activity N L R F H (touch ref (rl_OnWrite R p))"
| a_expose: "activity N L R F H (quietly (Expose N name addr h))"
| a_dial: "activity N L R F H (quietly (Dial_stream N R ids target meth))"
| a_close: "activity N L R F H (quietly (Close_stream N ref))"
| a_half: "activity N L R F H (quietly (CloseWrite_stream N half ref))"
| a_resume: "activity N L R F H (quietly (Resume N L R ref))"
| a_run: "activity N L R F H (quietly (RunWithReconnect N L R addrs rounds))"
| a_swapconn: "activity N L R F H (SwapConn c)"
| a_tls: "activity N L R F H (SetForwardServerTLS tls)"
| a_enable: "activity N L R F H (EnableP2P ctx)"
| a_start: "activity N L R F H (StartResume ms ctx period)"
| a_checkpoints: "activity N L R F H (quietly (emitCheckpoints N R ts))"
| a_reader: "activity N L R F H (quietly (controlReader N L R polls))"
| a_locals: "activity N L R F H (SetLocalCandidates cs)"
| a_query: "activity N L R F H (quietly (QueryServerReflexive_session N L timeout sel rnd ctr))"
| a_wait: "activity N L R F H (quietly (WaitForStreamMode late i))"
| a_promote: "activity N L R F H others \<Longrightarrow>
    activity N L R F H (quietly (Promote N ifaces others cerr pick rso engo opts hostPort))"
| a_migrate: "activity N L R F H (quietly (MigrateToDirect N R rso co))"
| a_direct: "activity N L R F H (handleDirectStream N L R st)"
| a_incoming: "activity N L R F H others \<Longrightarrow> activity N L R F H during \<Longrightarrow>
    activity N L R F H (handleIncoming N L R F H others late during st)"
| a_serve: "activity N L R F H others \<Longrightarrow> activity N L R F H during \<Longrightarrow>
    activity N L R F H (quietly (serve_conn N R F H ids others late during tls ic))"
| a_try: "activity N L R F H others \<Longrightarrow>
    activity N L R F H (tryPromote N R ifaces others cerr pick gone ref eng)"

section \<open>What every activity keeps\<close>

text \<open>Changes to the session's fields that leave its streams in place and add no waiter.\<close>

definition benign :: "session \<Rightarrow> session \<Rightarrow> bool" where
  "benign s s' \<longleftrightarrow> ss_streams s' = ss_streams s
     \<and> (ss_pendingMode s \<noteq> None \<longrightarrow> ss_pendingMode s' \<noteq> None)
     \<and> (ss_pendingAnswers s \<noteq> None \<longrightarrow> ss_pendingAnswers s' \<noteq> None)
     \<and> (ss_p2pEnabled s' \<longrightarrow> ss_p2pEnabled s \<or> ss_pendingMode s' \<noteq> None \<and> ss_pendingAnswers s' \<noteq> None)
     \<and> waiter (ss_pendingMode s') \<subseteq>\<^sub>m waiter (ss_pendingMode s) \<and> waiter (ss_pendingAnswers s') \<subseteq>\<^sub>m waiter (ss_pendingAnswers s)"

locale live_session = session_invariant P for P :: "('e, 's) sworld \<Rightarrow> bool" +
  fixes R :: "'s resume_lib"
  assumes settle: "P w \<Longrightarrow> benign (sess w) s \<Longrightarrow> P (w\<lparr>sess := s\<rparr>)"
    and bufs: "P (w\<lparr>mode_buf := mb\<rparr>) = P w" "P (w\<lparr>answer_buf := ab\<rparr>) = P w" "P (w\<lparr>id_pos := k\<rparr>) = P w"
    and register: "preserves P (RegisterStreamModeWaiter i)" "preserves P (registerAnswerWaiter i)"
    and wrap: "preserves P (wrapStream R i st)"
    and swap: "preserves P (SwapInner N ref st)"
    and forget: "preserves P (forgetStream i)"
    and close: "preserves P (Close_stream N ref)"
    and touches: "0 < n \<Longrightarrow> preserves P (touch ref (rl_OnRead R n))" "p \<noteq> [] \<Longrightarrow> preserves P (touch ref (rl_OnWrite R p))"
      "preserves P (touch ref (rl_OnCheckpoint R pos))"
begin

lemma any_act: "preserves P (act f ev)"
  by (simp add: preserves_def run_simps outside)

lemma sess_keeps: "(\<And>s. benign s (f s)) \<Longrightarrow> preserves P (put_sess f)"
  by (rule keeps_put_sess) (simp add: settle)

lemma upd_keeps:
  "preserves P (upd (\<lambda>w. w\<lparr>mode_buf := mb w\<rparr>))" "preserves P (upd (\<lambda>w. w\<lparr>answer_buf := ab w\<rparr>))"
  "preserves P (upd (\<lambda>w. w\<lparr>id_pos := k w\<rparr>))"
  "preserves P (upd (\<lambda>w. if c w then w\<lparr>mode_buf := mb w\<rparr> else w))"
  "preserves P (upd (\<lambda>w. if c w then w\<lparr>answer_buf := ab w\<rparr> else w))"
  by (simp_all add: preserves_def run_simps bufs)

lemma env_keeps: "preserves P (upd (\<lambda>w. w\<lparr>env := f (env w)\<rparr>))"
proof (rule preservesI)
  fix w :: "('e, 's) sworld"
  have "P (w\<lparr>env := f (env w), trace := trace w\<rparr>) = P w" by (rule outside)
  then show "P w \<Longrightarrow> P (snd (run_state (upd (\<lambda>w. w\<lparr>env := f (env w)\<rparr>)) w))" by (simp add: run_simps)
qed

lemmas prims = keeps keeps_io any_act keeps_any_emit sess_keeps upd_keeps register wrap swap forget close touches

lemma fwd_keeps: "preserves P (AcceptForward F g tls)" "preserves P (DialForward F g tls)" "preserves P (ForwardSession_Close F fs)"
  unfolding AcceptForward_def DialForward_def ForwardSession_Close_def open_plane_def fwd_Dial_def DialWithLogger_def fwd_register_def
    close_part_def fwd_io_defs fwd_Close_def Let_def
  by (intro prims)+

lemma waiter_keeps:
  "preserves P (CancelStreamModeWaiter i)" "preserves P (deliverMode i n)" "preserves P (WaitForStreamMode late i)"
  "preserves P (deliverAnswer a)"
proof -
  show cancel: "preserves P (CancelStreamModeWaiter i)" for i :: uint64
    unfolding CancelStreamModeWaiter_def by (intro prims) (auto simp: benign_def waiter_def map_le_def split: option.splits)
  show "preserves P (deliverMode i n)" unfolding deliverMode_def by (intro prims)
  show "preserves P (WaitForStreamMode late i)" unfolding WaitForStreamMode_def by (intro prims cancel)
  show "preserves P (deliverAnswer a)"
    unfolding deliverAnswer_def by (intro prims) (auto simp: benign_def waiter_def map_le_def split: option.splits)
qed

lemma service_keeps: "preserves P (Expose N name addr h)" "preserves P (Dial_stream N R ids target meth)"
  "preserves P (CloseWrite_stream N half ref)" "preserves P (SwapConn c)" "preserves P (SetForwardServerTLS tls)"
  "preserves P (SetLocalCandidates cs)" "preserves P (EnableP2P ctx)" "preserves P (StartResume ms ctx period)"
proof -
  show enable: "preserves P (EnableP2P ctx)" for ctx
    unfolding EnableP2P_def by (intro prims) (auto simp: benign_def waiter_def or_empty_def map_le_def split: option.splits)
  then show "preserves P (StartResume ms ctx period)"
    unfolding StartResume_def Let_def by (intro prims)
  show "preserves P (Expose N name addr h)" unfolding Expose_def by (intro prims) (simp add: benign_def)
  show "preserves P (Dial_stream N R ids target meth)" unfolding Dial_stream_def by (intro prims waiter_keeps)
  show "preserves P (CloseWrite_stream N half ref)" unfolding CloseWrite_stream_def by (intro prims)
  show "preserves P (SwapConn c)" "preserves P (SetForwardServerTLS tls)" "preserves P (SetLocalCandidates cs)"
    unfolding SwapConn_def SetForwardServerTLS_def SetLocalCandidates_def by (intro prims; simp add: benign_def)+
qed

lemma resume_keeps: "preserves P (Resume N L R ref)" "preserves P (resume_all N L R refs)"
  "preserves P (Reconnect N L R addrs names sids)" "preserves P (reconnect_loop N L R addrs b atts)"
  "preserves P (RunWithReconnect N L R addrs rounds)"
proof -
  show resume: "preserves P (Resume N L R ref)" for N :: "'e netlib" and L ref
    unfolding Resume_def by (intro prims keeps_completeResume)
  show all: "preserves P (resume_all N L R refs)" for N :: "'e netlib" and L refs
    by (induction refs) (auto intro!: prims resume split: option.split prod.split)
  show reconnect: "preserves P (Reconnect N L R addrs names sids)" for N :: "'e netlib" and L addrs names sids
    unfolding Reconnect_def by (intro prims keeps_reconnect_dial keeps_reregister all) (simp add: benign_def)
  show loop: "preserves P (reconnect_loop N L R addrs b atts)" for N :: "'e netlib" and L addrs b atts
    by (induction atts arbitrary: b) (auto intro!: prims reconnect keeps_restart)
  show "preserves P (RunWithReconnect N L R addrs rounds)"
    by (induction rounds) (auto intro!: prims loop keeps_Run_session simp: benign_def split: option.split)
qed

lemma checkpoint_keeps: "preserves P (applyCheckpoint R cp)"
  unfolding applyCheckpoint_def touch_def [symmetric] by (intro prims)

lemma control_keeps: "preserves P (writeCtrl N t m)" "preserves P (emitCheckpoints N R ts)" "preserves P (dispatch N L R f)"
  "preserves P (controlReader N L R polls)"
proof -
  show wr: "preserves P (writeCtrl N t m)" for N :: "'e netlib" and t m
    unfolding writeCtrl_def by (intro prims)
  have "preserves P (emit_loop N R refs)" for refs
    by (induction refs) (auto intro!: prims wr)
  then have "preserves P (emitOnce N R sids)" for sids unfolding emitOnce_def by (intro prims)
  then show "preserves P (emitCheckpoints N R ts)"
    by (induction N R ts rule: emitCheckpoints.induct) (auto intro!: prims)
  have "preserves P (punch_loop N t cs)" for N :: "'e netlib" and t cs
    by (induction cs) (auto simp: WriteTo_io_def intro!: prims split: option.split)
  then have "preserves P (warmupPunch N cs)" for N :: "'e netlib" and cs
    unfolding warmupPunch_def by (auto intro!: prims split: option.split dialer.split)
  then show disp: "preserves P (dispatch N L R f)" for N :: "'e netlib" and L f
    unfolding dispatch_def by (auto intro!: prims wr checkpoint_keeps waiter_keeps split: frame_type.split)
  show "preserves P (controlReader N L R polls)"
    by (induction polls) (auto intro!: prims disp)
qed

lemma check_keeps: "preserves P (Check N e locals remotes)"
proof -
  have "preserves P (check_loop N e locals rs)" for rs
    by (induction rs) (auto intro!: prims split: option.split)
  then show ?thesis unfolding Check_def .
qed

lemma promoter_keeps:
  assumes "\<And>hook off. SendOffer p = Some hook \<Longrightarrow> preserves P (hook off)"
    and "\<And>hook. RecvAnswer p = Some hook \<Longrightarrow> preserves P hook"
    and "\<And>hook i c. SendMigrate p = Some hook \<Longrightarrow> preserves P (hook i c)"
  shows "preserves P (Promoter_Run N p)"
proof (cases "SendMigrate p")
  case None
  show ?thesis
    unfolding Promoter_Run_def None option.case using assms(1,2) by (auto intro!: prims check_keeps split: option.split)
next
  case (Some mig)
  show ?thesis
    unfolding Promoter_Run_def Some option.case using assms(1,2) assms(3) [OF Some]
    by (auto intro!: prims check_keeps split: option.split)
qed

lemma promote_keeps:
  assumes "preserves P others"
  shows "preserves P (Promote N ifaces others cerr pick rso engo opts hostPort)"
proof -
  have recv: "preserves P (recv_answer others cerr pick ch)" for ch
    unfolding recv_answer_def by (intro prims assms)
  show ?thesis
    unfolding Promote_def
    by (auto intro!: prims waiter_keeps promoter_keeps recv control_keeps split: option.split)
qed

lemma direct_keeps: "preserves P (close_quietly N st)" "preserves P (handleDirectStream N L R st)"
  "preserves P (MigrateToDirect N R rso co)" "preserves P (QueryServerReflexive_session N L t sel rnd ctr)"
proof -
  show quiet: "preserves P (close_quietly N st)" for N :: "'e netlib" and st
    unfolding close_quietly_def by (intro prims)
  show "preserves P (handleDirectStream N L R st)"
    unfolding handleDirectStream_def by (intro prims quiet)
  show "preserves P (MigrateToDirect N R rso co)"
    unfolding MigrateToDirect_def by (auto intro!: prims split: option.split)
  show "preserves P (QueryServerReflexive_session N L t sel rnd ctr)"
    unfolding QueryServerReflexive_session_def QueryServerReflexive_def readObserved_def Let_def
    by (auto intro!: prims split: srflx_sel.split)
qed

lemma bridge_keeps:
  assumes "preserves P during"
  shows "preserves P (bridge_ends N F H during a b)"
proof -
  have "preserves P (close_endpoint N F H p)" for p
    unfolding close_endpoint_def CloseStream_io_def CloseLocal_io_def by (cases p) (simp_all add: prims)
  then show ?thesis unfolding bridge_ends_def by (intro prims assms)
qed

lemma stream_handler_keeps:
  assumes "preserves P others" and "preserves P during"
  shows "preserves P (handleIncoming N L R F H others late during st)"
    and "preserves P (serve_conn N R F H ids others late during tls ic)"
proof -
  have "preserves P (reject N st code reason)" for st code reason
    unfolding reject_def by (intro prims direct_keeps)
  moreover have "preserves P (serve_accepted N R F H others late during ena i st be)" for ena i st be
    unfolding serve_accepted_def serve_mode_def CloseLocal_io_def
    by (intro prims assms waiter_keeps bridge_keeps fwd_keeps)
  ultimately show "preserves P (handleIncoming N L R F H others late during st)"
    unfolding handleIncoming_def Handle_io_def CloseLocal_io_def by (intro prims direct_keeps waiter_keeps)
  have "preserves P (serve_stream N F H during tls ic ref granted)" for ref granted
    unfolding serve_stream_def by (intro prims assms bridge_keeps fwd_keeps)
  then show "preserves P (serve_conn N R F H ids others late during tls ic)"
    unfolding serve_conn_def CloseLocal_io_def by (intro prims assms waiter_keeps service_keeps)
qed

lemma activity_keeps: "activity N L R F H m \<Longrightarrow> preserves P m"
proof (induction rule: activity.induct)
  case (a_try others ifaces cerr pick gone ref eng)
  then show ?case unfolding tryPromote_def by (intro prims promote_keeps direct_keeps)
qed (auto simp only: quietly_def intro!: prims env_keeps service_keeps resume_keeps control_keeps waiter_keeps promote_keeps
    direct_keeps stream_handler_keeps)

end

section \<open>Well-formed sessions\<close>

text \<open>The channels of a waiter table: older than the next one, and no two waiters share one.\<close>

definition channels_ok :: "(uint64 \<rightharpoonup> nat) \<Rightarrow> nat \<Rightarrow> bool" where
  "channels_ok f n \<longleftrightarrow> (\<forall>i ch. f i = Some ch \<longrightarrow> ch < n) \<and> (\<forall>i j ch. f i = Some ch \<longrightarrow> f j = Some ch \<longrightarrow> i = j)"

definition session_ok :: "('e, 's) sworld \<Rightarrow> bool" where
  "session_ok w \<longleftrightarrow> streams_ok w \<and> finite (dom (ss_streams (sess w)))
     \<and> (ss_p2pEnabled (sess w) \<longrightarrow> ss_pendingMode (sess w) \<noteq> None \<and> ss_pendingAnswers (sess w) \<noteq> None)
     \<and> channels_ok (mode_entry w) (next_buf w) \<and> channels_ok (answer_entry w) (next_buf w)"

lemma channels_ok_le: "channels_ok f n \<Longrightarrow> g \<subseteq>\<^sub>m f \<Longrightarrow> n \<le> n' \<Longrightarrow> channels_ok g n'"
  unfolding channels_ok_def map_le_def by (metis domIff option.distinct(1) order_less_le_trans)

lemma channels_ok_new: "channels_ok f n \<Longrightarrow> channels_ok (f(i \<mapsto> n)) (Suc n)"
  unfolding channels_ok_def by (auto simp: less_Suc_eq split: if_splits)

text \<open>A change of the wrappers that leaves the session alone, or removes streams from its table.\<close>

lemma session_ok_streams:
  assumes "session_ok w" and "streams_ok w'" and "finite (dom (ss_streams (sess w')))"
    and "ss_p2pEnabled (sess w') = ss_p2pEnabled (sess w)" "ss_pendingMode (sess w') = ss_pendingMode (sess w)"
      "ss_pendingAnswers (sess w') = ss_pendingAnswers (sess w)" "next_buf w' = next_buf w"
  shows "session_ok w'"
  using assms by (simp add: session_ok_def mode_entry_def answer_entry_def)

lemma streams_change_frame:
  "sess (snd (run_state (mark_abandoned ref) w)) = sess w" "next_buf (snd (run_state (mark_abandoned ref) w)) = next_buf w"
  "sess (snd (run_state (SwapInner N ref st) w)) = sess w" "next_buf (snd (run_state (SwapInner N ref st) w)) = next_buf w"
  "sess (snd (run_state (forgetStream i) w)) = (sess w)\<lparr>ss_streams := (ss_streams (sess w))(i := None)\<rparr>"
  "next_buf (snd (run_state (forgetStream i) w)) = next_buf w"
  "sess (snd (run_state (touch ref g) w)) = sess w" "next_buf (snd (run_state (touch ref g) w)) = next_buf w"
  by (auto simp: mark_abandoned_def SwapInner_def forgetStream_def touch_def close_ready_def run_simps split: option.splits)

lemma Close_stream_frame:
  "next_buf (snd (run_state (Close_stream N ref) w)) = next_buf w"
  "\<exists>i. sess (snd (run_state (Close_stream N ref) w)) = (sess w)\<lparr>ss_streams := (ss_streams (sess w))(i := None)\<rparr>
    \<or> sess (snd (run_state (Close_stream N ref) w)) = sess w"
proof -
  have "next_buf (snd (run_state (Close_stream N ref) w)) = next_buf w
    \<and> (\<exists>i. sess (snd (run_state (Close_stream N ref) w)) = (sess w)\<lparr>ss_streams := (ss_streams (sess w))(i := None)\<rparr>
      \<or> sess (snd (run_state (Close_stream N ref) w)) = sess w)"
  proof (cases "objs w ref")
    case None
    then show ?thesis by (simp add: Close_stream_def run_simps)
  next
    case (Some rs)
    let ?w1 = "snd (run_state (forgetStream (rs_ID rs)) w)"
    let ?w2 = "snd (run_state (mark_abandoned ref) ?w1)"
    have "next_buf (snd (run_state (Close_stream N ref) w)) = next_buf ?w2" "sess (snd (run_state (Close_stream N ref) w)) = sess ?w2"
      using Some by (simp_all add: Close_stream_def run_simps split: prod.split)
    then show ?thesis by (auto simp: streams_change_frame)
  qed
  then show "next_buf (snd (run_state (Close_stream N ref) w)) = next_buf w"
    "\<exists>i. sess (snd (run_state (Close_stream N ref) w)) = (sess w)\<lparr>ss_streams := (ss_streams (sess w))(i := None)\<rparr>
    \<or> sess (snd (run_state (Close_stream N ref) w)) = sess w" by blast+
qed

lemma keeps_touch: "preserves streams_ok (touch ref g)"
proof (rule preservesI)
  fix w :: "('a, 'b) sworld" assume "streams_ok w"
  then show "streams_ok (snd (run_state (touch ref g) w))"
    by (cases "objs w ref") (auto simp: touch_def run_simps intro!: streams_ok_same_table [of w])
qed

lemma run_streams_ok: "preserves streams_ok m \<Longrightarrow> session_ok w \<Longrightarrow> streams_ok (snd (run_state m w))"
  by (simp add: preserves_def session_ok_def)

lemma session_ok_wrap: "preserves session_ok (wrapStream R i st)"
proof (rule preservesI)
  fix w :: "('a, 'b) sworld" assume ok: "session_ok w"
  have "streams_ok (snd (run_state (wrapStream R i st) w))"
    by (rule run_streams_ok [OF keeps_wrapStream ok])
  with ok show "session_ok (snd (run_state (wrapStream R i st) w))"
    by (rule session_ok_streams) (use ok in \<open>simp_all add: session_ok_def wrapStream_def run_simps\<close>)
qed

lemma session_ok_SwapInner: "preserves session_ok (SwapInner N ref st)"
  by (intro preservesI, frule session_ok_streams [OF _ run_streams_ok [OF keeps_SwapInner]])
    (auto simp: streams_change_frame session_ok_def)

lemma session_ok_forgetStream: "preserves session_ok (forgetStream i)"
  by (intro preservesI, frule session_ok_streams [OF _ run_streams_ok [OF keeps_forgetStream]])
    (auto simp: streams_change_frame session_ok_def)

lemma session_ok_touch: "preserves session_ok (touch ref g)"
  by (intro preservesI, frule session_ok_streams [OF _ run_streams_ok [OF keeps_touch]])
    (auto simp: streams_change_frame session_ok_def)

lemma session_ok_Close_stream: "preserves session_ok (Close_stream N ref)"
proof (rule preservesI)
  fix w :: "('a, 'b) sworld" assume ok: "session_ok w"
  have fin: "finite (dom (ss_streams (sess w)))" using ok by (simp add: session_ok_def)
  show "session_ok (snd (run_state (Close_stream N ref) w))"
    using ok run_streams_ok [OF keeps_Close_stream ok]
    by (rule session_ok_streams) (use fin Close_stream_frame [where N = N and ref = ref and w = w] in auto)
qed

lemma channels_ok_Suc: "channels_ok f n \<Longrightarrow> channels_ok f (Suc n)"
  by (erule channels_ok_le) simp_all

lemma session_ok_mode_waiter: "preserves session_ok (RegisterStreamModeWaiter i)"
proof (rule preservesI)
  fix w :: "('a, 'b) sworld" assume ok: "session_ok w"
  let ?w' = "after (RegisterStreamModeWaiter i) w"
  have "streams_ok ?w'" unfolding after_def by (rule run_streams_ok [OF keeps_Register ok])
  moreover have "answer_entry ?w' = answer_entry w" "ss_streams (sess ?w') = ss_streams (sess w)"
    "ss_pendingMode (sess ?w') \<noteq> None" "ss_pendingAnswers (sess ?w') = ss_pendingAnswers (sess w)"
    "ss_p2pEnabled (sess ?w') = ss_p2pEnabled (sess w)"
    by (simp_all add: answer_entry_def after_def RegisterStreamModeWaiter_def run_simps)
  ultimately have "session_ok ?w'" using ok by (simp add: session_ok_def mode_after channels_ok_new channels_ok_Suc)
  then show "session_ok (snd (run_state (RegisterStreamModeWaiter i) w))" by (simp add: after_def)
qed

lemma session_ok_answer_waiter: "preserves session_ok (registerAnswerWaiter i)"
proof (rule preservesI)
  fix w :: "('a, 'b) sworld" assume ok: "session_ok w"
  let ?w' = "after (registerAnswerWaiter i) w"
  have other: "mode_entry ?w' = mode_entry w" "ss_streams (sess ?w') = ss_streams (sess w)"
    "ss_pendingMode (sess ?w') = ss_pendingMode (sess w)" "ss_p2pEnabled (sess ?w') = ss_p2pEnabled (sess w)"
    "objs ?w' = objs w" "next_obj ?w' = next_obj w" "next_buf ?w' = Suc (next_buf w)"
    by (auto simp: mode_entry_def after_def registerAnswerWaiter_def run_simps split: option.splits)
  have "channels_ok (answer_entry ?w') (Suc (next_buf w))
    \<and> (ss_pendingAnswers (sess w) \<noteq> None \<longrightarrow> ss_pendingAnswers (sess ?w') \<noteq> None)"
  proof (cases "ss_pendingAnswers (sess w)")
    case None
    then have "answer_entry ?w' = answer_entry w"
      by (simp add: answer_entry_def after_def registerAnswerWaiter_def run_simps)
    then show ?thesis using ok None by (simp add: session_ok_def channels_ok_Suc)
  next
    case (Some f)
    then have "answer_entry ?w' = (answer_entry w)(i \<mapsto> next_buf w)" "ss_pendingAnswers (sess ?w') \<noteq> None"
      by (auto simp: answer_entry_def waiter_def after_def registerAnswerWaiter_def run_simps)
    then show ?thesis using ok channels_ok_new by (simp add: session_ok_def)
  qed
  moreover have "streams_ok ?w'" using ok other by (simp add: session_ok_def streams_ok_def)
  ultimately have "session_ok ?w'" using ok other channels_ok_Suc by (auto simp: session_ok_def)
  then show "session_ok (snd (run_state (registerAnswerWaiter i) w))" by (simp add: after_def)
qed

interpretation wf: live_session session_ok R for R :: "'s resume_lib"
proof
  show "session_ok (w\<lparr>env := e, trace := t\<rparr>) = session_ok w" for e t and w :: "('e, 's) sworld"
    by (simp add: session_ok_def streams_ok_def mode_entry_def answer_entry_def)
  show "session_ok (w\<lparr>mode_buf := mb\<rparr>) = session_ok w" "session_ok (w\<lparr>answer_buf := ab\<rparr>) = session_ok w"
    "session_ok (w\<lparr>id_pos := k\<rparr>) = session_ok w" for mb ab k and w :: "('e, 's) sworld"
    by (simp_all add: session_ok_def streams_ok_def mode_entry_def answer_entry_def)
  show "session_ok (w\<lparr>sess := s\<rparr>)" if "session_ok w" "benign (sess w) s" for s and w :: "('e, 's) sworld"
  proof -
    have "streams_ok (w\<lparr>sess := s\<rparr>)" using that by (simp add: session_ok_def streams_ok_def benign_def)
    then show ?thesis
      using that channels_ok_le [OF _ _ order_refl] by (auto simp: session_ok_def benign_def mode_entry_def answer_entry_def)
  qed
qed (rule session_ok_mode_waiter session_ok_answer_waiter session_ok_wrap session_ok_SwapInner session_ok_forgetStream
    session_ok_touch session_ok_Close_stream)+

text \<open>The session \<open>New\<close> returns is well formed.\<close>

lemma new_session_ok: "session_ok (start_sworld e (new_session c ctrl uri d))"
  by (simp add: session_ok_def streams_ok_def channels_ok_def start_sworld_def new_session_def mode_entry_def answer_entry_def waiter_def)

text \<open>
  C2.  Whatever the goroutines of the agent do with a session from the moment \<open>New\<close> returns
  it, calls of its interface in any order and interleaved at their waits, its state stays
  well typed: an entry of the stream table is the live wrapper with that id and no
  wrapper stands under two ids, the waiter tables exist once direct connections are
  enabled, and no two waiters share a channel.
\<close>

theorem session_wellformed:
  assumes "activity N L R F H m" and "run_state m (start_sworld e (new_session c ctrl uri d)) = (u, w)"
  shows "session_ok w
    \<and> (\<forall>i ref. ss_streams (sess w) i = Some ref \<longrightarrow> (\<exists>rs. objs w ref = Some rs \<and> rs_ID rs = i \<and> \<not> rs_abandoned rs)
        \<and> (\<forall>j. ss_streams (sess w) j = Some ref \<longrightarrow> i = j))"
proof -
  have ok: "session_ok w"
    by (rule preservesD [OF wf.activity_keeps [OF assms(1)] new_session_ok assms(2)])
  then have "streams_ok w" by (simp add: session_ok_def)
  with ok show ?thesis using streams_okD(1) streams_ok_inj by blast
qed

section \<open>Refinement of the concurrent wrapper\<close>

definition refines :: "'s resume_lib \<Rightarrow> ('e, 's) sworld \<Rightarrow> bool" where
  "refines R w \<longleftrightarrow> (\<forall>ref rs. objs w ref = Some rs \<longrightarrow> simulated R rs)"

lemma refines_update:
  "refines R w \<Longrightarrow> objs w' = (objs w)(ref \<mapsto> rs) \<Longrightarrow> simulated R rs \<Longrightarrow> refines R w'"
  by (simp add: refines_def)

lemma refines_same: "refines R w \<Longrightarrow> objs w' = objs w \<Longrightarrow> refines R w'"
  by (simp add: refines_def)

lemma close_ready_objs [simp]: "objs (close_ready ch w) = objs w"
  by (simp add: close_ready_def split: option.split)

lemma refines_abandon: "preserves (refines R) (mark_abandoned ref)"
proof (rule preservesI)
  fix w :: "('a, 'b) sworld" assume w: "refines R w"
  show "refines R (snd (run_state (mark_abandoned ref) w))"
  proof (cases "objs w ref")
    case None
    with w show ?thesis by (simp add: mark_abandoned_def run_simps)
  next
    case (Some rs)
    with w have "simulated R rs" by (simp add: refines_def)
    with w Some show ?thesis
      by (cases "rs_abandoned rs")
        (auto simp: mark_abandoned_def run_simps intro: refines_update [OF w _ simulated_abandon])
  qed
qed

lemma refines_wrap: "preserves (refines R) (wrapStream R i st)"
  by (rule preservesI, erule refines_update [OF _ _ simulated_new]) (simp add: wrapStream_def run_simps)

lemma refines_swap: "preserves (refines R) (SwapInner N ref st)"
proof (rule preservesI)
  fix w :: "('a, 'b) sworld" assume w: "refines R w"
  show "refines R (snd (run_state (SwapInner N ref st) w))"
  proof (cases "objs w ref")
    case None
    with w show ?thesis by (simp add: SwapInner_def run_simps)
  next
    case (Some rs)
    with w have "simulated R rs" by (simp add: refines_def)
    from w _ simulated_swap [OF this] show ?thesis
      by (rule refines_update) (simp add: SwapInner_def run_simps Some)
  qed
qed

lemma refines_touch:
  assumes "\<And>rs. simulated R rs \<Longrightarrow> simulated R (rs\<lparr>rs_state := g (rs_state rs)\<rparr>)"
  shows "preserves (refines R) (touch ref g)"
proof (rule preservesI)
  fix w :: "('b, 'a) sworld" assume w: "refines R w"
  then show "refines R (snd (run_state (touch ref g) w))"
    using assms by (cases "objs w ref") (auto simp: touch_def run_simps refines_def)
qed

lemma refines_forget: "preserves (refines R) (forgetStream i)"
  unfolding forgetStream_def by (intro keeps refines_abandon) (auto simp: preserves_def run_simps refines_def)

lemma refines_close: "preserves (refines R) (Close_stream N ref)"
  unfolding Close_stream_def by (intro keeps refines_forget refines_abandon) (auto simp: preserves_def run_simps refines_def)

interpretation rf: live_session "refines R" R for R :: "'s resume_lib"
proof
  show "refines R (w\<lparr>env := e, trace := t\<rparr>) = refines R w" "refines R (w\<lparr>mode_buf := mb\<rparr>) = refines R w"
    "refines R (w\<lparr>answer_buf := ab\<rparr>) = refines R w" "refines R (w\<lparr>id_pos := k\<rparr>) = refines R w"
    "refines R w \<Longrightarrow> refines R (w\<lparr>sess := s\<rparr>)" for e t mb ab k s and w :: "('e, 's) sworld"
    by (simp_all add: refines_def)
  show "preserves (refines R) (RegisterStreamModeWaiter i)" "preserves (refines R) (registerAnswerWaiter i)" for i :: uint64
    by (rule preservesI, erule refines_same,
        simp add: RegisterStreamModeWaiter_def registerAnswerWaiter_def run_simps split: option.split)+
qed (rule refines_wrap refines_swap refines_forget refines_close refines_touch simulated_read simulated_write
    simulated_checkpoint | assumption)+


section \<open>A concrete session\<close>

text \<open>A dialled stream that carries two bytes, and a second one that is closed.\<close>

definition busy :: "(script, ring_view, unit) sio" where
  "busy = State_Monad.bind (quietly (Dial_stream scripted (list_ring 8) (\<lambda>k. of_nat k + 1) ''svc-a'' ''''))
     (\<lambda>_. State_Monad.bind (quietly (Dial_stream scripted (list_ring 8) (\<lambda>k. of_nat k + 1) ''svc-b'' ''''))
       (\<lambda>_. State_Monad.bind (touch 0 (rl_OnWrite (list_ring 8) [1, 2])) (\<lambda>_. quietly (Close_stream scripted 1))))"

definition busy_world :: "(script, ring_view) sworld" where
  "busy_world = start_sworld (idle_script\<lparr>sc_opens := [Inr 9, Inr 10]\<rparr>) (new_session 1 2 ''agent'' TCPDialer)"

lemma busy_activity: "activity scripted L (list_ring 8) F H busy"
  unfolding busy_def by (intro activity.intros) simp

lemma busy_run:
  "\<exists>w. run_state busy busy_world = ((), w) \<and> ss_streams (sess w) = [1 \<mapsto> 0]
    \<and> objs w 0 = Some \<lparr>rs_ID = 1, rs_inner = 9, rs_state = \<lparr>written_bytes = [1, 2], evicted = 0, read_count = 0\<rparr>,
        rs_resumeReady = Some 0, rs_abandoned = False\<rparr>"
  by (simp add: busy_def busy_world_def quietly_def Dial_stream_def touch_def Close_stream_def forgetStream_def mark_abandoned_def
      close_ready_def wrapStream_def start_sworld_def new_session_def script_defs list_ring_def run_simps freshStreamID.simps)

theorem session_wellformed_witness:
  "\<forall>L F H. \<exists>w. activity scripted L (list_ring 8) F H busy \<and> run_state busy busy_world = ((), w) \<and> session_ok w
    \<and> (\<exists>rs. objs w 0 = Some rs \<and> rs_ID rs = 1 \<and> \<not> rs_abandoned rs)"
proof (intro allI)
  fix L :: orp_lib and F :: "script fwdlib" and H :: "script hostlib"
  obtain w where w: "run_state busy busy_world = ((), w)" "ss_streams (sess w) = [1 \<mapsto> 0]" using busy_run by blast
  have "ss_streams (sess w) 1 = Some 0" using w(2) by simp
  with session_wellformed [OF busy_activity [of L F H] w(1) [unfolded busy_world_def]]
  have ok: "session_ok w" "\<exists>rs. objs w 0 = Some rs \<and> rs_ID rs = 1 \<and> \<not> rs_abandoned rs" by blast+
  show "\<exists>w. activity scripted L (list_ring 8) F H busy \<and> run_state busy busy_world = ((), w) \<and> session_ok w
    \<and> (\<exists>rs. objs w 0 = Some rs \<and> rs_ID rs = 1 \<and> \<not> rs_abandoned rs)"
    using w(1) ok busy_activity by blast
qed


end
