(* ===== verification/Bridge.thy ===== *)
theory Bridge
  imports Prelude
begin

text \<open>
  Copying between two connections: \<open>bridge\<close> and \<open>copyAndDone\<close> of
  \<open>pkg/session/session.go\<close>, and \<open>bridge\<close>, \<open>io.Copy\<close> and \<open>halfCloseWrite\<close> as
  \<open>cmd/outrelay-agent/main.go\<close> uses them.  Both run one goroutine per direction; a
  schedule says which of them makes its next read.  What the two have in common is
  the locale \<open>copier\<close>.
\<close>

section \<open>One read\<close>

text \<open>
  A read delivers bytes, an error or both; the write of the bytes to the other end
  accepts a number of them and may fail.
\<close>

record copy_input =
  ci_bytes :: "byte list"
  ci_readErr :: "go_error option"
  ci_written :: nat
  ci_writeErr :: "go_error option"

datatype dst_op = WriteOp "byte list" | CloseWriteOp | CloseOp

text \<open>
  One iteration of \<open>copyAndDone\<close>: what it does to the destination and whether it is the
  last one.  \<open>half\<close> says whether the destination has a \<open>CloseWrite\<close>.
\<close>

definition copy_once :: "bool \<Rightarrow> copy_input \<Rightarrow> dst_op list \<times> bool" where
  "copy_once half r =
     (let ops = (if ci_bytes r \<noteq> [] then [WriteOp (ci_bytes r)] else []) in
      if ci_bytes r \<noteq> [] \<and> ci_writeErr r \<noteq> None then (ops, True)
      else if ci_readErr r \<noteq> None then (ops @ (if half then [CloseWriteOp] else []), True)
      else (ops, False))"

definition halfCloseWrite :: "bool \<Rightarrow> dst_op list" where
  "halfCloseWrite half = (if half then [CloseWriteOp] else [CloseOp])"

text \<open>One iteration of \<open>io.Copy\<close>, with the half-close that follows the last one.\<close>

definition copy_iter :: "bool \<Rightarrow> copy_input \<Rightarrow> dst_op list \<times> bool" where
  "copy_iter half r =
     (let ops = (if ci_bytes r \<noteq> [] then [WriteOp (ci_bytes r)] else []) in
      if ci_bytes r \<noteq> [] \<and> (ci_writeErr r \<noteq> None \<or> ci_written r \<noteq> length (ci_bytes r))
        \<or> ci_readErr r \<noteq> None
      then (ops @ halfCloseWrite half, True) else (ops, False))"

section \<open>Two directions\<close>

text \<open>
  The reads each direction still has ahead of it, \<open>None\<close> once it is done.  The first
  component of an operation says where it goes: true is \<open>b\<close>, false is \<open>a\<close>.  When both
  directions are done both ends are closed.
\<close>

fun advance ::
  "(bool \<Rightarrow> copy_input \<Rightarrow> dst_op list \<times> bool) \<Rightarrow> bool \<Rightarrow> copy_input list option \<Rightarrow> dst_op list \<times> copy_input list option" where
  "advance once half (Some (r # rs)) = (case once half r of (ops, fin) \<Rightarrow> (ops, if fin then None else Some rs))"
| "advance once half input = ([], input)"

fun bridge_run ::
  "(bool \<Rightarrow> copy_input \<Rightarrow> dst_op list \<times> bool) \<Rightarrow> bool \<Rightarrow> bool \<Rightarrow> bool list \<Rightarrow>
     copy_input list option \<Rightarrow> copy_input list option \<Rightarrow> (bool \<times> dst_op) list" where
  "bridge_run once halfA halfB [] fromA fromB =
     (if fromA = None \<and> fromB = None then [(False, CloseOp), (True, CloseOp)] else [])"
| "bridge_run once halfA halfB (True # sched) fromA fromB = (case advance once halfB fromA of (ops, fromA') \<Rightarrow>
     map (Pair True) ops @ bridge_run once halfA halfB sched fromA' fromB)"
| "bridge_run once halfA halfB (False # sched) fromA fromB = (case advance once halfA fromB of (ops, fromB') \<Rightarrow>
     map (Pair False) ops @ bridge_run once halfA halfB sched fromA fromB')"

definition bridge_session ::
  "bool \<Rightarrow> bool \<Rightarrow> bool list \<Rightarrow> copy_input list \<Rightarrow> copy_input list \<Rightarrow> (bool \<times> dst_op) list" where
  "bridge_session halfA halfB sched fromA fromB = bridge_run copy_once halfA halfB sched (Some fromA) (Some fromB)"

definition bridge_agent ::
  "bool \<Rightarrow> bool \<Rightarrow> bool list \<Rightarrow> copy_input list \<Rightarrow> copy_input list \<Rightarrow> (bool \<times> dst_op) list" where
  "bridge_agent halfA halfB sched fromA fromB = bridge_run copy_iter halfA halfB sched (Some fromA) (Some fromB)"

section \<open>What every copier does\<close>

fun written :: "dst_op list \<Rightarrow> byte list" where
  "written [] = []"
| "written (WriteOp b # ops) = b @ written ops"
| "written (_ # ops) = written ops"

lemma written_append [simp]: "written (ops @ ops') = written ops @ written ops'"
  by (induction ops rule: written.induct) simp_all

text \<open>A write that takes everything, and inputs that end with the first read error.\<close>

definition accepted_write :: "copy_input \<Rightarrow> bool" where
  "accepted_write r \<longleftrightarrow> ci_writeErr r = None \<and> ci_written r = length (ci_bytes r)"

fun ends_once :: "copy_input list \<Rightarrow> bool" where
  "ends_once [] = False"
| "ends_once [r] = (ci_readErr r \<noteq> None)"
| "ends_once (r # rs) = (ci_readErr r = None \<and> ends_once rs)"

definition ops_on :: "bool \<Rightarrow> (bool \<times> dst_op) list \<Rightarrow> dst_op list" where
  "ops_on d ops = map snd (filter (\<lambda>x. fst x = d) ops)"

lemma ops_on_simps [simp]:
  "ops_on d [] = []" "ops_on d (x # ops) = (if fst x = d then [snd x] else []) @ ops_on d ops"
  "ops_on d (ops @ ops') = ops_on d ops @ ops_on d ops'"
  "ops_on d (map (Pair e) xs) = (if e = d then xs else [])"
  by (auto simp: ops_on_def filter_map comp_def)

locale copier =
  fixes once :: "bool \<Rightarrow> copy_input \<Rightarrow> dst_op list \<times> bool"
  assumes once_more: "accepted_write r \<Longrightarrow> ci_readErr r = None \<Longrightarrow>
      \<exists>ops. once True r = (ops, False) \<and> written ops = ci_bytes r \<and> CloseOp \<notin> set ops"
    and once_last: "accepted_write r \<Longrightarrow> ci_readErr r \<noteq> None \<Longrightarrow>
      \<exists>ops. once True r = (ops @ [CloseWriteOp], True) \<and> written ops = ci_bytes r \<and> CloseOp \<notin> set ops"
begin

text \<open>What a direction does from some input to its end.\<close>

fun whole :: "copy_input list option \<Rightarrow> dst_op list" where
  "whole None = []"
| "whole (Some []) = []"
| "whole (Some (r # rs)) = (case once True r of (ops, fin) \<Rightarrow> ops @ (if fin then [] else whole (Some rs)))"

lemma whole_ends:
  assumes "ends_once rs" and "list_all accepted_write rs"
  shows "\<exists>ops. whole (Some rs) = ops @ [CloseWriteOp] \<and> written ops = concat (map ci_bytes rs) \<and> CloseOp \<notin> set ops"
  using assms
proof (induction rs rule: ends_once.induct)
  case (2 r)
  then show ?case using once_last [of r] by fastforce
next
  case (3 r r' rs)
  obtain ops where "once True r = (ops, False)" "written ops = ci_bytes r" "CloseOp \<notin> set ops"
    using once_more [of r] 3(2,3) by auto
  moreover obtain ops' where "whole (Some (r' # rs)) = ops' @ [CloseWriteOp]"
      "written ops' = concat (map ci_bytes (r' # rs))" "CloseOp \<notin> set ops'"
    using 3 by auto
  ultimately show ?case by (intro exI [of _ "ops @ ops'"]) simp
qed simp

text \<open>An input that a run can bring to its end.\<close>

definition live :: "copy_input list option \<Rightarrow> bool" where
  "live input \<longleftrightarrow> (case input of None \<Rightarrow> True | Some rs \<Rightarrow> ends_once rs \<and> list_all accepted_write rs)"

definition left :: "copy_input list option \<Rightarrow> nat" where
  "left input = (case input of None \<Rightarrow> 0 | Some rs \<Rightarrow> length rs)"

lemma advance_step:
  assumes "live input" and "advance once True input = (ops, input')"
  shows "live input' \<and> whole input = ops @ whole input' \<and> left input' = left input - 1
    \<and> (left input' = 0 \<longrightarrow> input' = None)"
proof (cases input)
  case None
  then show ?thesis using assms by (simp add: live_def left_def)
next
  case (Some rs)
  then have rs: "ends_once rs" "list_all accepted_write rs" using assms(1) by (simp_all add: live_def)
  show ?thesis
  proof (cases rs rule: ends_once.cases)
    case 1
    then show ?thesis using rs by simp
  next
    case (2 r)
    then obtain ops' where "once True r = (ops' @ [CloseWriteOp], True)" using once_last [of r] rs by auto
    then show ?thesis using Some 2 assms(2) by (auto simp: live_def left_def)
  next
    case (3 r r' rs')
    then obtain ops' where "once True r = (ops', False)" using once_more [of r] rs by auto
    then show ?thesis using Some 3 assms(2) rs by (auto simp: live_def left_def)
  qed
qed

text \<open>
  On ends that support a half-close, a schedule that gives each direction its turns
  moves everything and only then closes.
\<close>

lemma run_whole:
  assumes "live fromA" and "live fromB"
    and "left fromA \<le> count_list sched True" and "left fromB \<le> count_list sched False"
    and "left fromA = 0 \<Longrightarrow> fromA = None" and "left fromB = 0 \<Longrightarrow> fromB = None"
  shows "\<exists>moved. bridge_run once True True sched fromA fromB = moved @ [(False, CloseOp), (True, CloseOp)]
    \<and> ops_on True moved = whole fromA \<and> ops_on False moved = whole fromB"
  using assms
proof (induction sched arbitrary: fromA fromB)
  case Nil
  then have "fromA = None" "fromB = None" by auto
  then show ?case by simp
next
  case (Cons d sched)
  show ?case
  proof (cases d)
    case True
    obtain ops input' where adv: "advance once True fromA = (ops, input')" by fastforce
    note st = advance_step [OF Cons.prems(1) adv]
    have le: "left input' \<le> count_list sched True" using st Cons.prems(3) True by simp
    obtain moved where "bridge_run once True True sched input' fromB = moved @ [(False, CloseOp), (True, CloseOp)]"
        "ops_on True moved = whole input'" "ops_on False moved = whole fromB"
      using Cons.IH [of input' fromB] st le Cons.prems True by auto
    then show ?thesis using True adv st by (intro exI [of _ "map (Pair True) ops @ moved"]) simp
  next
    case False
    obtain ops input' where adv: "advance once True fromB = (ops, input')" by fastforce
    note st = advance_step [OF Cons.prems(2) adv]
    have le: "left input' \<le> count_list sched False" using st Cons.prems(4) False by simp
    obtain moved where "bridge_run once True True sched fromA input' = moved @ [(False, CloseOp), (True, CloseOp)]"
        "ops_on True moved = whole fromA" "ops_on False moved = whole input'"
      using Cons.IH [of fromA input'] st le Cons.prems False by auto
    then show ?thesis using False adv st by (intro exI [of _ "map (Pair False) ops @ moved"]) simp
  qed
qed

lemma transparent:
  assumes "ends_once rsA" and "list_all accepted_write rsA" and "ends_once rsB" and "list_all accepted_write rsB"
    and "length rsA \<le> count_list sched True" and "length rsB \<le> count_list sched False"
  shows "\<exists>moved opsA opsB. bridge_run once True True sched (Some rsA) (Some rsB)
      = moved @ [(False, CloseOp), (True, CloseOp)] \<and> CloseOp \<notin> snd ` set moved
    \<and> ops_on True moved = opsB @ [CloseWriteOp] \<and> written opsB = concat (map ci_bytes rsA)
    \<and> ops_on False moved = opsA @ [CloseWriteOp] \<and> written opsA = concat (map ci_bytes rsB)"
proof -
  have ne: "rsA \<noteq> []" "rsB \<noteq> []" using assms(1,3) by auto
  obtain opsB where b: "whole (Some rsA) = opsB @ [CloseWriteOp]" "written opsB = concat (map ci_bytes rsA)" "CloseOp \<notin> set opsB"
    using whole_ends [OF assms(1,2)] by blast
  obtain opsA where a: "whole (Some rsB) = opsA @ [CloseWriteOp]" "written opsA = concat (map ci_bytes rsB)" "CloseOp \<notin> set opsA"
    using whole_ends [OF assms(3,4)] by blast
  obtain moved where m: "bridge_run once True True sched (Some rsA) (Some rsB) = moved @ [(False, CloseOp), (True, CloseOp)]"
      "ops_on True moved = whole (Some rsA)" "ops_on False moved = whole (Some rsB)"
    using run_whole [of "Some rsA" "Some rsB" sched] assms ne by (auto simp: live_def left_def)
  have "CloseOp \<notin> snd ` set moved"
  proof
    assume "CloseOp \<in> snd ` set moved"
    then obtain d where "(d, CloseOp) \<in> set moved" by auto
    then have "CloseOp \<in> set (ops_on d moved)" by (force simp: ops_on_def)
    then show False using m a b by (cases d) auto
  qed
  then show ?thesis using m a b
    by - (rule exI [of _ moved], rule exI [of _ opsA], rule exI [of _ opsB], simp)
qed

end

interpretation sc: copier copy_once
  by unfold_locales (auto simp: copy_once_def accepted_write_def)

interpretation ac: copier copy_iter
  by unfold_locales (auto simp: copy_iter_def halfCloseWrite_def accepted_write_def)

section \<open>The bridges\<close>

text \<open>
  C11. A bridge is transparent, in both programs and however the two directions
  interleave: between ends that support a half-close and accept what is written, if
  each side's reads end and each direction gets its turns, then every byte read from
  one side is written to the other in order, each side is told of the other's end by
  a half-close, and the full closes come only after both directions are finished; so
  a client that has finished sending still receives the whole reply.
\<close>

theorem bridge_transparent:
  assumes "br \<in> {bridge_session, bridge_agent}"
    and "ends_once rsA" and "list_all accepted_write rsA" and "ends_once rsB" and "list_all accepted_write rsB"
    and "length rsA \<le> count_list sched True" and "length rsB \<le> count_list sched False"
  shows "\<exists>moved opsA opsB. br True True sched rsA rsB = moved @ [(False, CloseOp), (True, CloseOp)]
    \<and> CloseOp \<notin> snd ` set moved
    \<and> ops_on True moved = opsB @ [CloseWriteOp] \<and> written opsB = concat (map ci_bytes rsA)
    \<and> ops_on False moved = opsA @ [CloseWriteOp] \<and> written opsA = concat (map ci_bytes rsB)"
  using sc.transparent [OF assms(2-7)] ac.transparent [OF assms(2-7)] assms(1)
  unfolding bridge_session_def bridge_agent_def by (elim insertE) simp_all

definition sent :: "byte list \<Rightarrow> go_error option \<Rightarrow> copy_input" where
  "sent b e = \<lparr>ci_bytes = b, ci_readErr = e, ci_written = length b, ci_writeErr = None\<rparr>"

theorem bridge_transparent_witness:
  "\<exists>moved opsA. bridge_session True True [True, False, False] [sent [1] (Some EOF)] [sent [2] None, sent [3] (Some EOF)]
      = moved @ [(False, CloseOp), (True, CloseOp)]
    \<and> ops_on False moved = opsA @ [CloseWriteOp] \<and> written opsA = [2, 3]"
proof -
  have "ends_once [sent [1] (Some EOF)]" "list_all accepted_write [sent [1] (Some EOF)]"
      "ends_once [sent [2] None, sent [3] (Some EOF)]" "list_all accepted_write [sent [2] None, sent [3] (Some EOF)]"
    by (simp_all add: sent_def accepted_write_def)
  from bridge_transparent [OF _ this, of bridge_session "[True, False, False]"]
  show ?thesis by (auto simp: sent_def)
qed

end
