(* ===== verification/Spec2Isabelle.thy ===== *)
theory Spec2Isabelle
  imports Lifecycle Bridge
begin

text \<open>
  Verification of \<open>outrelay-agent\<close>, the program that connects the hosts of an Outrelay
  network to their relay.  A provider agent exposes local services; a consumer agent
  intercepts local connections, opens a stream through the relay for each of them and
  copies the bytes.  Streams survive the loss of the relay connection, can move to a
  direct connection between the agents, and can use a datagram forwarding plane.

  \<^bold>\<open>The parts and where they are.\<close>  Paths are relative to \<open>src/\<close>.

  \<^item> \<open>Prelude\<close>: machine integers and bytes, Go's errors with \<open>errors.Is\<close>, the functions
    of \<open>strings\<close> and \<open>encoding/binary\<close> in use.  \<open>Netip\<close>, \<open>NetipText\<close>: the part of \<open>net/netip\<close>
    in use, with the round trip of printing and parsing an address.
  \<^item> \<open>Transport\<close>: the code outside the repository as records of functions over an
    environment: connections and streams (\<open>netlib\<close>), messages (\<open>orp_lib\<close>), the retransmission
    ring (\<open>resume_lib\<close>); the actions \<open>act\<close> and \<open>emit\<close> that call them and log an event in the
    trace of a \<open>world\<close>.  \<open>Scripted\<close> is a concrete such library for the examples.
  \<^item> \<open>VIP\<close> and \<open>DNS\<close>: \<open>pkg/intercept/vip.go\<close> and \<open>dns.go\<close>.  \<open>Intercept\<close>: the interceptors of
    \<open>explicit.go\<close>, \<open>tproxy_linux.go\<close> and \<open>tproxy_other.go\<close>, step functions whose schedules
    interleave the accept loops, \<open>Accept\<close> and \<open>Close\<close>.
  \<^item> \<open>Candidate\<close>: \<open>pkg/candidate/candidate.go\<close>.  \<open>P2P\<close>: \<open>pkg/p2p\<close>, the connectivity check,
    the promoter and the demoter.
  \<^item> \<open>Resumable\<close>: \<open>ResumableStream\<close> of \<open>pkg/session/session.go\<close> as threads with program
    counters over one shared wrapper.  \<open>ResumableInv\<close>: what holds in all interleavings.
  \<^item> \<open>Session\<close>: the record \<open>session\<close> for the struct \<open>Session\<close>, wrappers in an explicit store
    (\<open>objs\<close> of \<open>sworld\<close>), and the operations of \<open>session.go\<close>.  \<open>Streams\<close>, \<open>SessionDial\<close>,
    \<open>Resuming\<close>, \<open>Waiters\<close>: its properties.  \<open>Incoming\<close>: \<open>handleIncoming\<close>.  \<open>Control\<close> and
    \<open>Promotion\<close>: \<open>promote.go\<close> and \<open>checkpoints.go\<close>.
  \<^item> \<open>Forward\<close>: \<open>pkg/forward/conn.go\<close> and \<open>pkg/session/forward.go\<close>.  \<open>Bridge\<close>: the two bridges.
  \<^item> \<open>Agent\<close>: \<open>cmd/outrelay-agent/main.go\<close>, from the flags to the exit code.
  \<^item> \<open>WrapperSim\<close> and \<open>Lifecycle\<close>: the session as a whole.  This theory: from a name to the
    service.

  \<^bold>\<open>How state and effects correspond.\<close>  An operation that does input and output is an
  action of the state monad over \<open>world\<close> or \<open>sworld\<close>; an error is the left of a sum or an
  \<open>option\<close>; a panic is the error \<open>Panic\<close>; a \<open>go\<close> statement is the event \<open>EvGo\<close>.  Pointers to
  wrappers are references into the store, so that two owners of one wrapper are seen as
  such.  A \<open>select\<close> is resolved by an argument that says which case is taken.  Where an
  operation waits, the argument \<open>others\<close> or \<open>during\<close> is what the rest of the agent does
  meanwhile.  Identifiers drawn at random come from a stream \<open>ids\<close>.

  \<^bold>\<open>What is shown.\<close>

  \<^item> Names and addresses: the two tables of the allocator are inverse, an address is the
    least free one, the default pool has 4161536 addresses; what a DNS reply says; a name
    leads to its service through the proxy (\<open>name_reaches_service\<close>).
  \<^item> Connections: no interceptor loses or doubles a connection in any interleaving, and
    after \<open>Close\<close> all are released; the goroutines that serve a connection release
    what they hold on every path; the bridges deliver every byte in order.
  \<^item> Streams: a parked read or write is woken, \<open>Write\<close> accounts for its bytes, \<open>Resume\<close>
    and \<open>handleDirectStream\<close> retransmit exactly the gap, \<open>Reconnect\<close> restores services and
    streams, fresh identifiers are found, checkpoints keep what the peer still needs.
  \<^item> The session: its state is well formed after any activity (\<open>session_wellformed\<close>),
    and its sequential view of a wrapper refines the concurrent one
    (\<open>session_refines_wrapper\<close>), by two interpretations of one locale, \<open>live_session\<close>.
  \<^item> Direct connections and forwarding: the check picks the best reachable candidate, an
    offer is answered, promotion succeeds with what the peer answered, packets round-trip,
    nothing of the forwarding plane is left open.
  \<^item> The program: the order of start-up, the fallback of the dial, the exit codes.
  \<^item> Where the code falls short of its intention the theorem says so:
    \<open>resume_write_race\<close>, \<open>MigrateToDirect_drops_gap\<close>, \<open>stale_close_kills_replacement\<close>,
    \<open>dns_capital_unreachable\<close>, \<open>srflx_timeout_two_readers\<close>, \<open>NewExplicit_failure_leaks\<close>,
    \<open>tproxy_dies_silently\<close>, \<open>Promote_leaks_waiter\<close>.

  \<^bold>\<open>Loops.\<close>  No definition has fuel.  A loop over inputs (accept, poll, tick, retry) is a
  recursion over the list of what the calls return, and reports that it is still running
  at the end of the list; theorems hold for lists of any length.  The scan of the
  allocator is a \<open>function\<close> whose position grows, \<open>freshStreamID\<close> a partial function that is
  shown to return when an identifier is free and drawn.  The concurrent models are step
  functions, and their theorems range over all schedules.

  \<^bold>\<open>Interfaces.\<close>  The locales \<open>name_table\<close> (the allocator and its clients), \<open>stable_ranking\<close>
  (the order of candidates), \<open>accept_loops\<close> (the interceptors), \<open>copier\<close> (the bridges),
  \<open>waiter_table\<close> and \<open>cancellable_table\<close> (the one-shot waiters), \<open>call_invariant\<close>,
  \<open>session_invariant\<close> and \<open>live_session\<close> (what calls and activities keep) are interpreted on the
  definitions of the model.

  \<^bold>\<open>Not modelled.\<close>  Log output; real time, so a timer is an input that says it fired;
  the inside of TLS, QUIC, protobuf, the ring buffer and the system calls, which are
  arguments; the adapters \<open>fwdQuicConn\<close> and \<open>fwdQuicStream\<close>, each method of which is one call
  of quic-go; getters, socket deadlines, \<open>Candidate.String\<close>, \<open>DNSServer.Addr\<close>; the parsing of the
  command line by \<open>flag\<close> and \<open>signalContext\<close>, whose results are inputs.  The threads of
  \<open>ResumableStream\<close>, the interceptors and the bridges interleave at every step; the other
  operations of a session interleave where they wait.
\<close>

section \<open>From a name to a service\<close>

text \<open>
  What the transparent mode starts with: one allocator, shared by the DNS server and
  the proxy, in which every consumed service has its address.
\<close>

lemma startInterceptor_tproxy:
  assumes "startInterceptor u net ln ''tproxy'' dnsAddr dnsSuffix consumes = (Inr (ITProxy t), Some dns)"
  shows "vip_inv (tp_alloc t)" and "NewTProxy ln (Some (tp_alloc t)) = Inr t"
    and "svc \<in> set consumes \<Longrightarrow> svc \<noteq> [] \<Longrightarrow> \<exists>ip. LookupName (tp_alloc t) svc = Some ip \<and> Lookup (tp_alloc t) ip = svc"
proof -
  obtain a0 alloc where new: "NewVIPAllocator DefaultVIPCIDR = Inr a0" "alloc_all Allocate consumes a0 = (None, alloc)"
    and t: "NewTProxy ln (Some alloc) = Inr t"
    using assms by (auto simp: startInterceptor_def split: sum.splits prod.splits option.splits)
  have inv: "vip_inv a0" using vip_reachable_inv [OF vip_new [OF new(1)]] .
  have eq: "tp_alloc t = alloc" using t by (auto simp: NewTProxy_def split: sum.splits)
  show "vip_inv (tp_alloc t)" using vip.alloc_all_ok [OF inv, of consumes] new(2) eq by simp
  show "NewTProxy ln (Some (tp_alloc t)) = Inr t" using t eq by simp
  show "\<exists>ip. LookupName (tp_alloc t) svc = Some ip \<and> Lookup (tp_alloc t) ip = svc" if "svc \<in> set consumes" "svc \<noteq> []"
    using vip.alloc_all_resolves [OF inv new(2) that] eq by simp
qed

text \<open>A connection to an address of the table is offered for the service that holds it.\<close>

lemma tproxy_offers_service:
  assumes "tp_pc t = LAccepting" and "listening (tp_ln t) t" and "ar_isTCP a"
    and "origDst4 (ar_sockopt a) = Inr (ip, port)" and "Lookup (tp_alloc t) ip = svc" and "svc \<noteq> []"
  shows "\<exists>t1 t2. tproxy_acceptLoop (WConn a) t = Some t1
    \<and> tproxy_Accept (RecvConn 0) t1 = Some (Inr \<lparr>ic_Local = ar_conn a, ic_OrigDest = (ip, port), ic_TargetSvc = svc\<rparr>, t2)"
  using assms by (simp add: tproxy_acceptLoop_def tproxy_Accept_def Let_def)

text \<open>The reply to an address question about a service that holds an address.\<close>

lemma respond_address:
  assumes "dl_Start L query = Inr hdr" and "dl_Question L query = Inr q" and "qType q = TypeA"
    and "query_for u s (qName q) svc" and "svc \<noteq> []" and "LookupName alloc svc = Some (Addr4 w)"
  shows "\<exists>m r. respond L u s alloc query = Inr (case dl_Pack L m of Inl _ \<Rightarrow> None | Inr out \<Rightarrow> Some out)
    \<and> hRCode (mHeader m) = RCodeSuccess \<and> mAnswers m = [r] \<and> rName r = qName q \<and> rA r = PutUint32 w"
proof -
  have "dns_lookup u s alloc (qName q) = Some (Addr4 w)" using assms(4-6) dns_lookup_iff by blast
  then show ?thesis
    using assms(1-3)
    by (intro exI [of _ "\<lparr>mHeader = answer_header hdr, mQuestions = [q], mAnswers = [\<lparr>rName = qName q, rType = TypeA,
          rClass = ClassINET, rTTL = 60, rA = PutUint32 w\<rparr>]\<rparr>"])
      (auto simp: respond_def answer_header_def split: sum.splits)
qed

text \<open>
  C1.  In transparent mode a name leads to its service.  Once \<open>startInterceptor\<close> has
  succeeded, a question for the address of a consumed service is answered with one
  address; and whatever has happened to the proxy since, while it is accepting, a TCP
  connection whose original destination is the address in that answer is accepted and
  handed to the consumer for exactly that service, which starts a goroutine to serve it.
\<close>

theorem name_reaches_service:
  assumes "startInterceptor u net ln ''tproxy'' dnsAddr dnsSuffix consumes = (Inr (ITProxy t0), Some dns)"
    and "svc \<in> set consumes" and "svc \<noteq> []"
    and "dl_Start L query = Inr hdr" and "dl_Question L query = Inr q" and "qType q = TypeA" and "query_for u dns (qName q) svc"
  shows "\<exists>m r. respond L u dns (tp_alloc t0) query = Inr (case dl_Pack L m of Inl _ \<Rightarrow> None | Inr out \<Rightarrow> Some out)
    \<and> hRCode (mHeader m) = RCodeSuccess \<and> mAnswers m = [r] \<and> rName r = qName q \<and> length (rA r) = 4
    \<and> (\<forall>t a so w. reach tproxy_step t0 t \<longrightarrow> tp_pc t = LAccepting \<longrightarrow> listening (tp_ln t) t
        \<longrightarrow> ar_isTCP a \<longrightarrow> ar_sockopt a = so \<longrightarrow> so_SyscallConn so = None \<longrightarrow> so_Control so = None \<longrightarrow> so_Errno so = None
        \<longrightarrow> take 4 (drop 4 (so_raw so)) = rA r
        \<longrightarrow> (\<exists>t1 t2 ic. tproxy_acceptLoop (WConn a) t = Some t1 \<and> tproxy_Accept (RecvConn 0) t1 = Some (Inr ic, t2)
              \<and> ic_Local ic = ar_conn a \<and> ic_TargetSvc ic = svc
              \<and> trace (snd (run_state (runConsumer [Inr ic]) w)) = trace w @ [EvGo (GoServe (ar_conn a) svc)]))"
proof -
  note up = startInterceptor_tproxy [OF assms(1)]
  obtain ip where ip: "LookupName (tp_alloc t0) svc = Some ip" "Lookup (tp_alloc t0) ip = svc" using up(3) [OF assms(2,3)] by blast
  have "dns_lookup u dns (tp_alloc t0) (qName q) = Some ip" using ip(1) assms(3,7) dns_lookup_iff by blast
  then obtain v where v: "ip = Addr4 v" using dns_lookup_Addr4 [OF up(1)] by blast
  obtain m r where m: "respond L u dns (tp_alloc t0) query = Inr (case dl_Pack L m of Inl _ \<Rightarrow> None | Inr out \<Rightarrow> Some out)"
    "hRCode (mHeader m) = RCodeSuccess" "mAnswers m = [r]" "rName r = qName q" "rA r = PutUint32 v"
    using respond_address [OF assms(4-7,3) ip(1) [unfolded v]] by blast
  have "\<exists>t1 t2 ic. tproxy_acceptLoop (WConn a) t = Some t1 \<and> tproxy_Accept (RecvConn 0) t1 = Some (Inr ic, t2)
      \<and> ic_Local ic = ar_conn a \<and> ic_TargetSvc ic = svc
      \<and> trace (snd (run_state (runConsumer [Inr ic]) w)) = trace w @ [EvGo (GoServe (ar_conn a) svc)]"
    if t: "reach tproxy_step t0 t" "tp_pc t = LAccepting" "listening (tp_ln t) t" and a: "ar_isTCP a"
      "so_SyscallConn (ar_sockopt a) = None" "so_Control (ar_sockopt a) = None" "so_Errno (ar_sockopt a) = None"
      and dst: "take 4 (drop 4 (so_raw (ar_sockopt a))) = rA r" for t a and w :: "('e, 'm) world_scheme"
  proof -
    have "Lookup (tp_alloc t) ip = svc"
      using tp.always [OF t(1) NewTProxy_inv [OF up(2)]] ip(2) by (simp add: tp_inv_def)
    moreover have "origDst4 (ar_sockopt a) = Inr (ip, Uint16 (take 2 (drop 2 (so_raw (ar_sockopt a)))))"
      using a(2-4) dst m(5) v Uint32_PutUint32 [of v "[]"] by (simp add: origDst4_def AddrFrom4_def)
    ultimately show ?thesis
      using tproxy_offers_service [OF t(2,3) a(1) _ _ assms(3)] by (fastforce simp: run_simps)
  qed
  moreover have "length (rA r) = 4" using m(5) by simp
  ultimately show ?thesis using m by blast
qed

theorem name_reaches_service_witness:
  "\<exists>t0 dns m r. startInterceptor sample_unicode demo_net (Inr \<lparr>ln_id = 0, ln_Addr = (Addr4 0x7F000001, 15001)\<rparr>) ''tproxy''
       '':53'' ''outrelay'' [''svc-x''] = (Inr (ITProxy t0), Some dns)
    \<and> respond sample_lib sample_unicode dns (tp_alloc t0) [1] = Inr (case dl_Pack sample_lib m of Inl _ \<Rightarrow> None | Inr out \<Rightarrow> Some out)
    \<and> mAnswers m = [r]
    \<and> (\<exists>t1 t2 ic. tproxy_acceptLoop (WConn (demo_arrival 7 (rA r))) t0 = Some t1
          \<and> tproxy_Accept (RecvConn 0) t1 = Some (Inr ic, t2) \<and> ic_TargetSvc ic = ''svc-x'')"
proof -
  let ?ln = "\<lparr>ln_id = 0, ln_Addr = (Addr4 0x7F000001, 15001)\<rparr>" and ?dns = "\<lparr>listenAddr = '':53'', suffix = ''.outrelay''\<rparr>"
  have "ToLower sample_unicode (TrimSpace sample_unicode ''outrelay'') = ''outrelay''" "\<not> HasPrefix ''outrelay'' ''.''"
    by code_simp+
  then have dns: "NewDNSServer sample_unicode '':53'' ''outrelay'' (Some a) = Inr ?dns" for a by (simp add: NewDNSServer_def)
  obtain t0 where t0: "startInterceptor sample_unicode demo_net (Inr ?ln) ''tproxy'' '':53'' ''outrelay'' [''svc-x'']
      = (Inr (ITProxy t0), Some ?dns)"
    and st: "tp_pc t0 = LAccepting" "listening (tp_ln t0) t0"
    by (simp add: startInterceptor_def NewVIPAllocator_default Allocate_def alloc_scan.simps Contains.simps(1) usable4_def
        dns NewTProxy_def listening_def)
  have q: "dl_Question sample_lib [1] = Inr \<lparr>qName = ''Svc-X.OutRelay.'', qType = TypeA, qClass = ClassINET\<rparr>"
    and "query_for sample_unicode ?dns ''Svc-X.OutRelay.'' ''svc-x''"
    by (simp_all add: sample_lib_def query_for_def) code_simp
  moreover obtain hdr where "dl_Start sample_lib [1] = Inr hdr" by (simp add: sample_lib_def)
  ultimately obtain m r where m: "respond sample_lib sample_unicode ?dns (tp_alloc t0) [1]
      = Inr (case dl_Pack sample_lib m of Inl _ \<Rightarrow> None | Inr out \<Rightarrow> Some out)" "mAnswers m = [r]" "length (rA r) = 4"
    and go: "\<And>a so. ar_isTCP a \<Longrightarrow> ar_sockopt a = so \<Longrightarrow> so_SyscallConn so = None \<Longrightarrow> so_Control so = None \<Longrightarrow> so_Errno so = None
      \<Longrightarrow> take 4 (drop 4 (so_raw so)) = rA r \<Longrightarrow> \<exists>t1 t2 ic. tproxy_acceptLoop (WConn a) t0 = Some t1
        \<and> tproxy_Accept (RecvConn 0) t1 = Some (Inr ic, t2) \<and> ic_TargetSvc ic = ''svc-x''"
    using name_reaches_service [OF t0, of "''svc-x''" sample_lib "[1]" hdr] st reach.start [of tproxy_step t0] by fastforce
  have "\<exists>t1 t2 ic. tproxy_acceptLoop (WConn (demo_arrival 7 (rA r))) t0 = Some t1
      \<and> tproxy_Accept (RecvConn 0) t1 = Some (Inr ic, t2) \<and> ic_TargetSvc ic = ''svc-x''"
    by (rule go [OF _ refl]) (simp_all add: demo_arrival_def m(3))
  with t0 m show ?thesis by blast
qed

end
